theory Spec2Isabelle
  imports Complex_Main "HOL-Library.Log_Nat"
begin

section \<open>JavaScript strings\<close>

text \<open>
  The strings of the program are modelled as \<open>string\<close> (lists of 8-bit characters) holding
  ASCII text. \<open>String.prototype.trim\<close> removes white space and line terminators from
  both ends; within ASCII these are TAB, LF, VT, FF, CR and SPACE.
\<close>

definition isWhiteSpace :: "char \<Rightarrow> bool" where
  "isWhiteSpace c = (c \<in> set [CHR 0x09, CHR 0x0A, CHR 0x0B, CHR 0x0C, CHR 0x0D, CHR 0x20])"

definition trim :: "string \<Rightarrow> string" where
  "trim s = rev (dropWhile isWhiteSpace (rev (dropWhile isWhiteSpace s)))"

text \<open>\<open>toLowerCase\<close> on ASCII text: the letters \<open>A\<close> to \<open>Z\<close> change.\<close>

definition lowerChar :: "char \<Rightarrow> char" where
  "lowerChar c =
     (case map_of (zip ''ABCDEFGHIJKLMNOPQRSTUVWXYZ'' ''abcdefghijklmnopqrstuvwxyz'') c of
        None \<Rightarrow> c
      | Some l \<Rightarrow> l)"

definition toLowerCase :: "string \<Rightarrow> string" where
  "toLowerCase s = map lowerChar s"

definition startsWith :: "string \<Rightarrow> string \<Rightarrow> bool" where
  "startsWith s p = (take (length p) s = p)"

text \<open>\<open>s.split(sep)\<close> for a one-character separator: never the empty array.\<close>

fun js_split :: "char \<Rightarrow> string \<Rightarrow> string list" where
  "js_split sep [] = [[]]"
| "js_split sep (c # cs) =
     (if c = sep then [] # js_split sep cs
      else (case js_split sep cs of
              [] \<Rightarrow> [[c]]
            | w # ws \<Rightarrow> (c # w) # ws))"

text \<open>\<open>xs.join(sep)\<close>.\<close>

fun js_join :: "string \<Rightarrow> string list \<Rightarrow> string" where
  "js_join sep [] = []"
| "js_join sep [x] = x"
| "js_join sep (x # y # ys) = x @ sep @ js_join sep (y # ys)"

text \<open>\<open>a || b\<close> on an optional string: \<open>undefined\<close>, \<open>null\<close> and \<open>''\<close> are falsy.\<close>

definition or_default :: "string option \<Rightarrow> string \<Rightarrow> string" where
  "or_default a b = (case a of None \<Rightarrow> b | Some s \<Rightarrow> if s = [] then b else s)"

section \<open>Pagination of the two list endpoints\<close>

text \<open>
  JavaScript numbers are IEEE doubles. The nearest double to a positive rational \<open>n / d\<close>
  is a significand of at most 53 bits times a power of two: the exponent \<open>e\<close> puts
  \<open>n / (d * 2^e)\<close> between \<open>2^52\<close> and \<open>2^53\<close>, and the quotient is rounded to the nearest
  integer, a tie to the even one. Results of the magnitude \<open>2^1024\<close> or more are infinite.
  The sign of a zero is not kept (no comparison sees it), and a result below the normal
  range is only used through its ceiling, which is that of the rational itself.
\<close>

definition round_half_even :: "int \<Rightarrow> int \<Rightarrow> int" where
  "round_half_even n d =
     (let q = n div d; r = n mod d
      in if 2 * r < d then q else if d < 2 * r then q + 1 else if even q then q else q + 1)"

definition double_exponent :: "int \<Rightarrow> int \<Rightarrow> int" where
  "double_exponent n d =
     (let e0 = bitlen n - bitlen d - 53
      in if 2 ^ 53 * (d * 2 ^ nat e0) \<le> n * 2 ^ nat (- e0) then e0 + 1 else e0)"

definition double_significand :: "int \<Rightarrow> int \<Rightarrow> int" where
  "double_significand n d =
     (let e = double_exponent n d in round_half_even (n * 2 ^ nat (- e)) (d * 2 ^ nat e))"

definition double_of :: "int \<Rightarrow> int \<Rightarrow> real" where
  "double_of n d =
     (if n = 0 then 0
      else sgn (real_of_int n) * real_of_int (double_significand \<bar>n\<bar> d)
             * 2 ^ nat (double_exponent \<bar>n\<bar> d) / 2 ^ nat (- double_exponent \<bar>n\<bar> d))"

datatype jsnum = Num real | PosInfinity | NegInfinity | NaN

fun js_less :: "jsnum \<Rightarrow> jsnum \<Rightarrow> bool" where
  "js_less (Num a) (Num b) = (a < b)"
| "js_less (Num a) PosInfinity = True"
| "js_less NegInfinity (Num b) = True"
| "js_less NegInfinity PosInfinity = True"
| "js_less _ _ = False"

text \<open>\<open>a * b\<close>, \<open>a / b\<close> and \<open>Math.ceil\<close> on numbers that are integers.\<close>

definition js_mul :: "int \<Rightarrow> int \<Rightarrow> jsnum" where
  "js_mul a b =
     (let r = double_of (a * b) 1
      in if 2 ^ 1024 \<le> r then PosInfinity else if r \<le> - (2 ^ 1024) then NegInfinity else Num r)"

definition js_div :: "int \<Rightarrow> int \<Rightarrow> jsnum" where
  "js_div a b =
     (if b = 0 then (if a = 0 then NaN else if 0 < a then PosInfinity else NegInfinity)
      else if 0 < b then Num (double_of a b)
      else Num (double_of (- a) (- b)))"

definition math_ceil :: "jsnum \<Rightarrow> jsnum" where
  "math_ceil x = (case x of Num r \<Rightarrow> Num (of_int \<lceil>r\<rceil>) | _ \<Rightarrow> x)"

text \<open>
  \<open>GET /sessions\<close> and \<open>GET /my-sessions\<close> build the same \<open>pagination\<close> object from the
  parsed \<open>page\<close> and \<open>limit\<close> and the counted \<open>total\<close> (written \<open>tot\<close> below), three numbers
  that are integers: \<open>hasNextPage\<close> is \<open>page * limit < total\<close> and \<open>totalPages\<close> is
  \<open>Math.ceil(total / limit)\<close>, both in double arithmetic.
\<close>

record pagination =
  currentPage :: int
  totalPages :: jsnum
  totalSessions :: int
  hasNextPage :: bool

definition sessions_pagination :: "int \<Rightarrow> int \<Rightarrow> int \<Rightarrow> pagination" where
  "sessions_pagination page limit tot =
     \<lparr> currentPage = page,
       totalPages = math_ceil (js_div tot limit),
       totalSessions = tot,
       hasNextPage = js_less (js_mul page limit) (Num (of_int tot)) \<rparr>"

definition my_sessions_pagination :: "int \<Rightarrow> int \<Rightarrow> int \<Rightarrow> pagination" where
  "my_sessions_pagination page limit tot =
     \<lparr> currentPage = page,
       totalPages = math_ceil (js_div tot limit),
       totalSessions = tot,
       hasNextPage = js_less (js_mul page limit) (Num (of_int tot)) \<rparr>"

section \<open>Session records and the schema\<close>

datatype status = Draft | Published

record session_fields =
  title :: string
  tags :: "string list"
  json_file_url :: string
  status :: status

text \<open>
  \<open>sessionData\<close> of the two write routes, and a stored document. The \<open>_id\<close> of a document
  is the key under which the collection holds it; times are numbers (milliseconds).
\<close>

record session_data = session_fields +
  user_id :: nat

record session_doc = session_data +
  created_at :: nat
  updated_at :: nat

record db =
  docs :: "nat \<rightharpoonup> session_doc"
  next_oid :: nat

definition empty_db :: db where
  "empty_db = \<lparr> docs = Map.empty, next_oid = 0 \<rparr>"

text \<open>
  The schema of \<open>models/Session.js\<close>. The setters (\<open>trim\<close>, \<open>lowercase\<close>) run when a value is
  cast, the validators (\<open>required\<close>, \<open>maxlength\<close>, \<open>match\<close>) on the cast value. \<open>required\<close> on
  a string fails on the empty string; \<open>match\<close> passes on the empty string and tests the
  regular expression otherwise. The routes always give \<open>user_id\<close> and a \<open>status\<close> of the
  enumeration, so these two paths never fail.
\<close>

definition cast_session :: "session_data \<Rightarrow> session_data" where
  "cast_session d =
     d\<lparr> title := trim (title d),
        tags := map (\<lambda>tag. toLowerCase (trim tag)) (tags d),
        json_file_url := trim (json_file_url d) \<rparr>"

definition isLineTerminator :: "char \<Rightarrow> bool" where
  "isLineTerminator c = (c = CHR 0x0A \<or> c = CHR 0x0D)"

text \<open>
  \<open>/^https?:\/\/.+/.test(u)\<close>: \<open>http://\<close> or \<open>https://\<close> at the start, then at least one
  character that is not a line terminator.
\<close>

definition url_regex_test :: "string \<Rightarrow> bool" where
  "url_regex_test u =
     (let rest = (if startsWith u ''http://'' then Some (drop 7 u)
                  else if startsWith u ''https://'' then Some (drop 8 u)
                  else None)
      in case rest of
           None \<Rightarrow> False
         | Some [] \<Rightarrow> False
         | Some (c # _) \<Rightarrow> \<not> isLineTerminator c)"

definition title_errors :: "string \<Rightarrow> string list" where
  "title_errors t =
     (if t = [] then [''Title is required'']
      else if 200 < length t then [''Title cannot exceed 200 characters'']
      else [])"

definition tag_errors :: "string \<Rightarrow> string list" where
  "tag_errors tag = (if 50 < length tag then [''Tag cannot exceed 50 characters''] else [])"

definition url_errors :: "string \<Rightarrow> string list" where
  "url_errors u =
     (if u = [] then [''JSON file URL is required'']
      else if \<not> url_regex_test u then [''Please enter a valid URL'']
      else [])"

text \<open>
  The messages of a \<open>ValidationError\<close>, in the order in which the paths are reported:
  \<open>title\<close>, \<open>json_file_url\<close>, then the elements \<open>tags.N\<close> of the array.
\<close>

definition validation_errors :: "session_data \<Rightarrow> string list" where
  "validation_errors d =
     title_errors (title d) @ url_errors (json_file_url d) @ concat (map tag_errors (tags d))"

text \<open>
  \<open>new Session(sessionData).save()\<close>: the document is cast and validated; a valid one is
  inserted under a new \<open>_id\<close>.
\<close>

definition create :: "nat \<Rightarrow> session_data \<Rightarrow> db \<Rightarrow> (string list + nat \<times> session_doc) \<times> db" where
  "create now sessionData db =
     (let c = cast_session sessionData; msgs = validation_errors c
      in if msgs \<noteq> [] then (Inl msgs, db)
         else
           (let i = next_oid db;
                d = \<lparr> title = title c, tags = tags c, json_file_url = json_file_url c,
                      status = status c, user_id = user_id c,
                      created_at = now, updated_at = now \<rparr>
            in (Inr (i, d), db\<lparr> docs := (docs db)(i \<mapsto> d), next_oid := Suc i \<rparr>)))"

text \<open>
  \<open>Session.findOneAndUpdate({ _id: id, user_id }, sessionData, { new: true, runValidators:
  true })\<close>: the update is cast and validated before the query runs; the query returns
  \<open>null\<close> when no document has this \<open>_id\<close> and this owner, and the updated document
  otherwise.
\<close>

definition findOneAndUpdate ::
  "nat \<Rightarrow> nat \<Rightarrow> nat \<Rightarrow> session_data \<Rightarrow> db \<Rightarrow> (string list + session_doc option) \<times> db" where
  "findOneAndUpdate now i uid sessionData db =
     (let c = cast_session sessionData; msgs = validation_errors c
      in if msgs \<noteq> [] then (Inl msgs, db)
         else
           (case docs db i of
              None \<Rightarrow> (Inr None, db)
            | Some old \<Rightarrow>
                if user_id old \<noteq> uid then (Inr None, db)
                else
                  (let d = old\<lparr> title := title c, tags := tags c,
                                json_file_url := json_file_url c, status := status c,
                                user_id := user_id c, updated_at := now \<rparr>
                   in (Inr (Some d), db\<lparr> docs := (docs db)(i \<mapsto> d) \<rparr>))))"

section \<open>The session routes\<close>

text \<open>
  The body of a write request: \<open>id\<close>, \<open>title\<close>, \<open>tags\<close> and \<open>json_file_url\<close>, each of which
  may be absent; a present \<open>title\<close> or \<open>json_file_url\<close> is a string and a present \<open>tags\<close> an
  array of strings. The routes run behind \<open>authenticateToken\<close>, which gives them the user;
  the database is taken to answer every query.
\<close>

record body =
  body_id :: "nat option"
  body_title :: "string option"
  body_tags :: "string list option"
  body_json_file_url :: "string option"

datatype reply =
    Saved string nat session_doc
  | Found nat session_doc
  | Deleted string
  | Failure nat string

text \<open>\<open>Array.isArray(tags) ? tags.filter(tag => tag.trim()) : []\<close>\<close>

definition body_tag_list :: "body \<Rightarrow> string list" where
  "body_tag_list b = (case body_tags b of None \<Rightarrow> [] | Some ts \<Rightarrow> filter (\<lambda>tag. trim tag \<noteq> []) ts)"

text \<open>\<open>!x || !x.trim()\<close>\<close>

definition blank :: "string option \<Rightarrow> bool" where
  "blank x = (case x of None \<Rightarrow> True | Some s \<Rightarrow> s = [] \<or> trim s = [])"

definition get_my_session :: "nat \<Rightarrow> nat \<Rightarrow> db \<Rightarrow> reply" where
  "get_my_session uid i db =
     (case docs db i of
        None \<Rightarrow> Failure 404 ''Session not found''
      | Some d \<Rightarrow> if user_id d = uid then Found i d else Failure 404 ''Session not found'')"

text \<open>
  The two write routes end alike, each with its own \<open>sessionData\<close> and message:
  \<open>if (id)\<close> the session of this \<open>_id\<close> and owner is updated, otherwise a new one is
  created; a \<open>ValidationError\<close> is answered with status 400 and its messages, joined.
\<close>

definition write_session :: "string \<Rightarrow> nat \<Rightarrow> nat \<Rightarrow> nat option \<Rightarrow> session_data \<Rightarrow> db \<Rightarrow> reply \<times> db" where
  "write_session message now uid sid sessionData db =
     (case sid of
        Some i \<Rightarrow>
          (case findOneAndUpdate now i uid sessionData db of
             (Inl msgs, db') \<Rightarrow> (Failure 400 (js_join '', '' msgs), db')
           | (Inr None, db') \<Rightarrow> (Failure 404 ''Session not found'', db')
           | (Inr (Some d), db') \<Rightarrow> (Saved message i d, db'))
      | None \<Rightarrow>
          (case create now sessionData db of
             (Inl msgs, db') \<Rightarrow> (Failure 400 (js_join '', '' msgs), db')
           | (Inr (i, d), db') \<Rightarrow> (Saved message i d, db')))"

text \<open>\<open>sessionData\<close> of \<open>POST /my-sessions/save-draft\<close>.\<close>

definition draft_data :: "nat \<Rightarrow> body \<Rightarrow> session_data" where
  "draft_data uid b =
     \<lparr> title = or_default (body_title b) ''Untitled Session'',
       tags = body_tag_list b,
       json_file_url = or_default (body_json_file_url b) [],
       status = Draft,
       user_id = uid \<rparr>"

definition save_draft :: "nat \<Rightarrow> nat \<Rightarrow> body \<Rightarrow> db \<Rightarrow> reply \<times> db" where
  "save_draft now uid b db =
     write_session ''Draft saved successfully'' now uid (body_id b) (draft_data uid b) db"

text \<open>
  \<open>sessionData\<close> of \<open>POST /my-sessions/publish\<close>, built once the title and the URL have
  passed the checks of the route, so both are strings there.
\<close>

definition publish_data :: "nat \<Rightarrow> body \<Rightarrow> session_data" where
  "publish_data uid b =
     \<lparr> title = trim (or_default (body_title b) []),
       tags = body_tag_list b,
       json_file_url = trim (or_default (body_json_file_url b) []),
       status = Published,
       user_id = uid \<rparr>"

definition publish :: "nat \<Rightarrow> nat \<Rightarrow> body \<Rightarrow> db \<Rightarrow> reply \<times> db" where
  "publish now uid b db =
     (if blank (body_title b) then (Failure 400 ''Title is required for publishing'', db)
      else if blank (body_json_file_url b)
      then (Failure 400 ''JSON file URL is required for publishing'', db)
      else write_session ''Session published successfully'' now uid (body_id b) (publish_data uid b) db)"

definition delete_session :: "nat \<Rightarrow> nat \<Rightarrow> db \<Rightarrow> reply \<times> db" where
  "delete_session uid i db =
     (case docs db i of
        None \<Rightarrow> (Failure 404 ''Session not found'', db)
      | Some d \<Rightarrow>
          if user_id d = uid
          then (Deleted ''Session deleted successfully'', db\<lparr> docs := (docs db)(i := None) \<rparr>)
          else (Failure 404 ''Session not found'', db))"

text \<open>A sequence of writes to the collection, from any users.\<close>

datatype db_write =
    SaveDraft nat nat body
  | Publish nat nat body
  | DeleteSession nat nat

fun apply_write :: "db_write \<Rightarrow> db \<Rightarrow> db" where
  "apply_write (SaveDraft now uid b) db = snd (save_draft now uid b db)"
| "apply_write (Publish now uid b) db = snd (publish now uid b db)"
| "apply_write (DeleteSession uid i) db = snd (delete_session uid i db)"

fun apply_writes :: "db_write list \<Rightarrow> db \<Rightarrow> db" where
  "apply_writes [] db = db"
| "apply_writes (w # ws) db = apply_writes ws (apply_write w db)"

text \<open>The invariant of published records: a title and a data URL of the form \<open>http(s)://...\<close>.\<close>

definition published_ok :: "session_doc \<Rightarrow> bool" where
  "published_ok d =
     (status d = Published \<longrightarrow> title d \<noteq> [] \<and> json_file_url d \<noteq> [] \<and> url_regex_test (json_file_url d))"

definition db_inv :: "db \<Rightarrow> bool" where
  "db_inv db = (\<forall>i d. docs db i = Some d \<longrightarrow> published_ok d)"

section \<open>The authentication middleware and the client's response interceptor\<close>

text \<open>
  \<open>jwt.verify\<close> and \<open>User.findById\<close> are library calls: the first returns the decoded
  \<open>userId\<close> or throws an error with a \<open>name\<close>, the second returns the user, \<open>null\<close>, or
  throws. Both are parameters of the middleware here.
\<close>

datatype verify_result = Decoded nat | Throws string

datatype 'u auth_outcome = Next 'u | Denied nat string

text \<open>\<open>authHeader && authHeader.split(' ')[1]\<close>, then \<open>!token\<close>: the token, if there is one.\<close>

definition token_of :: "string option \<Rightarrow> string option" where
  "token_of authHeader =
     (case authHeader of
        None \<Rightarrow> None
      | Some h \<Rightarrow>
          (case js_split (CHR '' '') h of
             _ # t # _ \<Rightarrow> if t = [] then None else Some t
           | _ \<Rightarrow> None))"

definition auth_catch :: "string \<Rightarrow> 'u auth_outcome" where
  "auth_catch name =
     (if name = ''TokenExpiredError'' then Denied 401 ''Token expired. Please login again.''
      else if name = ''JsonWebTokenError'' then Denied 403 ''Invalid token.''
      else Denied 500 ''Authentication error'')"

definition authenticateToken ::
  "(string \<Rightarrow> verify_result) \<Rightarrow> (nat \<Rightarrow> string + 'u option) \<Rightarrow> string option \<Rightarrow> 'u auth_outcome" where
  "authenticateToken verify findById authHeader =
     (case token_of authHeader of
        None \<Rightarrow> Denied 401 ''Access denied. No token provided.''
      | Some token \<Rightarrow>
          (case verify token of
             Throws name \<Rightarrow> auth_catch name
           | Decoded userId \<Rightarrow>
               (case findById userId of
                  Inl name \<Rightarrow> auth_catch name
                | Inr None \<Rightarrow> Denied 401 ''Invalid token. User not found.''
                | Inr (Some user) \<Rightarrow> Next user)))"

text \<open>
  The client: \<open>localStorage\<close> and the address of the window. The error handler of the
  response interceptor reads \<open>error.response?.status\<close>, \<open>error.response?.data?.error\<close> and
  \<open>error.message\<close>, and returns the message of the rejection.
\<close>

record client =
  localStorage :: "string \<rightharpoonup> string"
  location_href :: string

record api_error =
  response_status :: "nat option"
  response_data_error :: "string option"
  error_message :: string

definition response_rejected :: "api_error \<Rightarrow> client \<Rightarrow> string \<times> client" where
  "response_rejected e c =
     (let c' = (if response_status e = Some 401
                then c\<lparr> localStorage := (localStorage c)(''wellness_token'' := None, ''wellness_user'' := None),
                        location_href := ''/login'' \<rparr>
                else c);
          message = or_default (response_data_error e) (or_default (Some (error_message e)) ''An error occurred'')
      in (message, c'))"

text \<open>The error that the HTTP client raises for a denied request: its status and its \<open>error\<close> field.\<close>

definition denied_error :: "nat \<Rightarrow> string \<Rightarrow> api_error" where
  "denied_error code msg =
     \<lparr> response_status = Some code, response_data_error = Some msg,
       error_message = ''Request failed'' \<rparr>"

section \<open>The session editor\<close>

text \<open>
  The \<open>session\<close> state of \<open>SessionEditor\<close>: the fields of the form and the \<open>_id\<close> of the
  record, once it has one. The title and the URL are strings in every state (the initial
  one, the value of an input, a stored record), so \<open>session.title?.trim()\<close> is
  \<open>trim (title b)\<close>.
\<close>

record buffer = session_fields +
  oid :: "nat option"

datatype edit = SetTitle string | SetTags "string list" | SetJsonFileUrl string

fun set_field :: "edit \<Rightarrow> buffer \<Rightarrow> buffer" where
  "set_field (SetTitle v) b = b\<lparr> title := v \<rparr>"
| "set_field (SetTags v) b = b\<lparr> tags := v \<rparr>"
| "set_field (SetJsonFileUrl v) b = b\<lparr> json_file_url := v \<rparr>"

datatype api_call = SaveDraftCall buffer | PublishCall buffer

datatype origin = AutoSave | SaveDraftButton | PublishButton

datatype toast = ToastSuccess string | ToastError string

datatype address = EditorPage | EditorPageOf nat | MySessionsPage

text \<open>
  The state of the component, followed by what it acts on: the pending timeouts of the
  window (handle and due time, in milliseconds), the timeout that the cleanup of the
  auto-save effect clears, the API calls that have not settled yet (each with the \<open>session\<close>
  its handler closed over), the log of the API calls issued (each with its time), the
  toasts shown, the address and whether the component is mounted.
\<close>

record editor =
  session :: buffer
  tagInput :: string
  isLoading :: bool
  isSaving :: bool
  lastSaved :: "nat option"
  hasUnsavedChanges :: bool
  autoSaveTimer :: "nat option"
  timers :: "(nat \<times> nat) list"
  next_handle :: nat
  effect_cleanup :: "nat option"
  awaiting :: "(origin \<times> buffer) list"
  calls :: "(nat \<times> api_call) list"
  toasts :: "toast list"
  route :: address
  mounted :: bool

definition initialState :: editor where
  "initialState =
     \<lparr> session = \<lparr> title = [], tags = [],
                   json_file_url = ''https://example.com/data/users.json'',
                   status = Draft, oid = None \<rparr>,
       tagInput = [], isLoading = False, isSaving = False, lastSaved = None,
       hasUnsavedChanges = False, autoSaveTimer = None,
       timers = [], next_handle = 1, effect_cleanup = None,
       awaiting = [], calls = [], toasts = [], route = EditorPage, mounted = True \<rparr>"

text \<open>
  Mounting the editor under the route parameter \<open>id\<close>: \<open>if (id && id !== 'new')\<close> the
  session is fetched, and \<open>isLoading\<close> is true until the fetch settles.
\<close>

definition mount :: "string option \<Rightarrow> editor" where
  "mount rid =
     initialState\<lparr> isLoading := (case rid of None \<Rightarrow> False | Some i \<Rightarrow> i \<noteq> [] \<and> i \<noteq> ''new'') \<rparr>"

definition clearTimeout :: "nat \<Rightarrow> editor \<Rightarrow> editor" where
  "clearTimeout h s = s\<lparr> timers := filter (\<lambda>(h', d). h' \<noteq> h) (timers s) \<rparr>"

text \<open>
  The auto-save effect. It runs again when \<open>autoSave\<close>, \<open>hasUnsavedChanges\<close> or \<open>isSaving\<close>
  has changed, and \<open>autoSave\<close> changes with \<open>session\<close>, \<open>hasUnsavedChanges\<close> and \<open>isSaving\<close>:
  first the cleanup of the previous run, then the body, which starts a timeout of 5000 ms.
\<close>

definition run_effect :: "nat \<Rightarrow> editor \<Rightarrow> editor" where
  "run_effect now s =
     (let s1 = (case effect_cleanup s of None \<Rightarrow> s | Some h \<Rightarrow> clearTimeout h s)
      in if hasUnsavedChanges s1 \<and> \<not> isSaving s1
         then (let h = next_handle s1
               in s1\<lparr> timers := timers s1 @ [(h, now + 5000)], next_handle := Suc h,
                      autoSaveTimer := Some h, effect_cleanup := Some h \<rparr>)
         else s1\<lparr> effect_cleanup := None \<rparr>)"

text \<open>
  The render after a handler has run, from the state \<open>old\<close> before it to the state \<open>new\<close>
  it has set; \<open>sessionSet\<close> tells whether the handler called \<open>setSession\<close>.
\<close>

definition render :: "nat \<Rightarrow> bool \<Rightarrow> editor \<Rightarrow> editor \<Rightarrow> editor" where
  "render now sessionSet old new =
     (if mounted new \<and> (sessionSet \<or> hasUnsavedChanges old \<noteq> hasUnsavedChanges new
                          \<or> isSaving old \<noteq> isSaving new)
      then run_effect now new else new)"

text \<open>Leaving the editor for another page: the component unmounts and the cleanup runs.\<close>

definition navigate :: "address \<Rightarrow> editor \<Rightarrow> editor" where
  "navigate a s =
     (let s1 = (case effect_cleanup s of None \<Rightarrow> s | Some h \<Rightarrow> clearTimeout h s)
      in s1\<lparr> effect_cleanup := None, route := a, mounted := False \<rparr>)"

definition isEmptySession :: "buffer \<Rightarrow> bool" where
  "isEmptySession b = (trim (title b) = [] \<and> trim (json_file_url b) = [] \<and> length (tags b) = 0)"

definition issue :: "nat \<Rightarrow> origin \<Rightarrow> api_call \<Rightarrow> editor \<Rightarrow> editor" where
  "issue now origin c s =
     s\<lparr> awaiting := awaiting s @ [(origin, session s)], calls := calls s @ [(now, c)] \<rparr>"

definition autoSave :: "nat \<Rightarrow> editor \<Rightarrow> editor" where
  "autoSave now s =
     (if \<not> hasUnsavedChanges s \<or> isSaving s then s
      else if isEmptySession (session s) then s
      else render now False s (issue now AutoSave (SaveDraftCall (session s)) (s\<lparr> isSaving := True \<rparr>)))"

definition handleInputChange :: "nat \<Rightarrow> edit \<Rightarrow> editor \<Rightarrow> editor" where
  "handleInputChange now e s =
     (let s1 = s\<lparr> session := set_field e (session s), hasUnsavedChanges := True \<rparr>;
          s2 = (case autoSaveTimer s of None \<Rightarrow> s1 | Some h \<Rightarrow> clearTimeout h s1)
      in render now True s s2)"

definition handleTagInputChange :: "nat \<Rightarrow> string \<Rightarrow> editor \<Rightarrow> editor" where
  "handleTagInputChange now v s =
     (let tagList = filter (\<lambda>tag. 0 < length tag)
                      (map (\<lambda>tag. toLowerCase (trim tag)) (js_split (CHR '','') v))
      in handleInputChange now (SetTags tagList) (s\<lparr> tagInput := v \<rparr>))"

definition removeTag :: "nat \<Rightarrow> nat \<Rightarrow> editor \<Rightarrow> editor" where
  "removeTag now indexToRemove s =
     (let newTags = take indexToRemove (tags (session s)) @ drop (Suc indexToRemove) (tags (session s))
      in render now True s
           (s\<lparr> session := (session s)\<lparr> tags := newTags \<rparr>,
               tagInput := js_join '', '' newTags,
               hasUnsavedChanges := True \<rparr>))"

text \<open>
  \<open>validateUrl\<close>: \<open>new URL(url)\<close> must not throw, and the text must start with \<open>http://\<close> or
  \<open>https://\<close>. The URL parser of the browser is the parameter \<open>urlParses\<close>.
\<close>

definition validateUrl :: "(string \<Rightarrow> bool) \<Rightarrow> string \<Rightarrow> bool" where
  "validateUrl urlParses url =
     (if urlParses url then startsWith url ''http://'' \<or> startsWith url ''https://'' else False)"

definition handleSaveDraft :: "nat \<Rightarrow> editor \<Rightarrow> editor" where
  "handleSaveDraft now s =
     render now False s (issue now SaveDraftButton (SaveDraftCall (session s)) (s\<lparr> isSaving := True \<rparr>))"

definition toast_error :: "string \<Rightarrow> editor \<Rightarrow> editor" where
  "toast_error m s = s\<lparr> toasts := toasts s @ [ToastError m] \<rparr>"

definition toast_success :: "string \<Rightarrow> editor \<Rightarrow> editor" where
  "toast_success m s = s\<lparr> toasts := toasts s @ [ToastSuccess m] \<rparr>"

definition handlePublish :: "(string \<Rightarrow> bool) \<Rightarrow> nat \<Rightarrow> editor \<Rightarrow> editor" where
  "handlePublish urlParses now s =
     (if trim (title (session s)) = [] then toast_error ''Title is required for publishing'' s
      else if trim (json_file_url (session s)) = []
      then toast_error ''JSON file URL is required for publishing'' s
      else if \<not> validateUrl urlParses (json_file_url (session s))
      then toast_error ''Please enter a valid URL (must start with http:// or https://)'' s
      else render now False s (issue now PublishButton (PublishCall (session s)) (s\<lparr> isSaving := True \<rparr>)))"

text \<open>
  The outcome of an API call: resolved with a response, whose \<open>session\<close> has an \<open>_id\<close> when
  it is there, or rejected with the message of the error. The state updates that follow
  the \<open>await\<close> are rendered together. The emoji of the success toasts are left out.
\<close>

datatype api_result = Resolved "nat option" | Rejected string

definition adopt_id :: "buffer \<Rightarrow> nat option \<Rightarrow> editor \<Rightarrow> editor" where
  "adopt_id captured rid s =
     (case rid of
        None \<Rightarrow> s
      | Some i \<Rightarrow>
          if oid captured = None
          then s\<lparr> session := (session s)\<lparr> oid := Some i \<rparr>, route := EditorPageOf i \<rparr>
          else s)"

definition adopts :: "buffer \<Rightarrow> api_result \<Rightarrow> bool" where
  "adopts captured r = (case r of Resolved (Some i) \<Rightarrow> oid captured = None | _ \<Rightarrow> False)"

definition settled :: "nat \<Rightarrow> origin \<Rightarrow> buffer \<Rightarrow> api_result \<Rightarrow> editor \<Rightarrow> editor" where
  "settled now origin captured r s =
     (case origin of
        AutoSave \<Rightarrow>
          (case r of
             Resolved rid \<Rightarrow>
               toast_success ''Auto-saved''
                 ((adopt_id captured rid s)\<lparr> lastSaved := Some now, hasUnsavedChanges := False,
                                              isSaving := False \<rparr>)
           | Rejected m \<Rightarrow> toast_error ''Auto-save failed'' (s\<lparr> isSaving := False \<rparr>))
      | SaveDraftButton \<Rightarrow>
          (case r of
             Resolved rid \<Rightarrow>
               toast_success ''Draft saved successfully!''
                 ((adopt_id captured rid s)\<lparr> lastSaved := Some now, hasUnsavedChanges := False,
                                              isSaving := False \<rparr>)
           | Rejected m \<Rightarrow>
               toast_error (or_default (Some m) ''Failed to save draft'') (s\<lparr> isSaving := False \<rparr>))
      | PublishButton \<Rightarrow>
          (case r of
             Resolved rid \<Rightarrow>
               navigate MySessionsPage
                 (toast_success ''Session published successfully!''
                    (s\<lparr> hasUnsavedChanges := False, isSaving := False \<rparr>))
           | Rejected m \<Rightarrow>
               toast_error (or_default (Some m) ''Failed to publish session'') (s\<lparr> isSaving := False \<rparr>)))"

definition settle :: "nat \<Rightarrow> api_result \<Rightarrow> editor \<Rightarrow> editor" where
  "settle now r s =
     (case awaiting s of
        [] \<Rightarrow> s
      | (origin, captured) # rest \<Rightarrow>
          render now (origin \<noteq> PublishButton \<and> adopts captured r) s
            (settled now origin captured r (s\<lparr> awaiting := rest \<rparr>)))"

text \<open>The fetch of an existing session settles: with the stored record, or with an error.\<close>

definition fetch_settled :: "nat \<Rightarrow> (nat \<times> session_doc) option \<Rightarrow> editor \<Rightarrow> editor" where
  "fetch_settled now r s =
     (case r of
        Some (i, d) \<Rightarrow>
          render now True s
            (s\<lparr> session := \<lparr> title = title d, tags = tags d, json_file_url = json_file_url d,
                             status = status d, oid = Some i \<rparr>,
                tagInput := js_join '', '' (tags d),
                lastSaved := Some (updated_at d),
                isLoading := False \<rparr>)
      | None \<Rightarrow>
          navigate MySessionsPage (toast_error ''Failed to load session'' (s\<lparr> isLoading := False \<rparr>)))"

text \<open>
  A timeout of the window fires at its due time and calls \<open>autoSave\<close>. Every change of
  \<open>session\<close>, \<open>hasUnsavedChanges\<close> or \<open>isSaving\<close> runs the effect again, which clears the
  timeout of the previous run, so the \<open>autoSave\<close> that a firing timeout calls has closed
  over the current values of the three.
\<close>

definition fire :: "nat \<times> nat \<Rightarrow> editor \<Rightarrow> editor" where
  "fire tm s =
     (if tm \<in> set (timers s) then autoSave (snd tm) (s\<lparr> timers := removeAll tm (timers s) \<rparr>) else s)"

text \<open>Time passes until \<open>t\<close>: the timeouts due by then fire.\<close>

definition advance :: "nat \<Rightarrow> editor \<Rightarrow> editor" where
  "advance t s = foldl (\<lambda>s' tm. fire tm s') s (filter (\<lambda>(h, d). d \<le> t) (timers s))"

text \<open>
  The events of the editor. The form and its buttons are there when the component is
  mounted and not loading; the button \<open>Save Draft\<close> is \<open>disabled={isSaving}\<close>, the button
  \<open>Publish\<close> is \<open>disabled={isSaving || !session.title?.trim() ||
  !session.json_file_url?.trim()}\<close>, and a tag has its remove button.
\<close>

datatype event =
    ChangeTitle string
  | ChangeJsonFileUrl string
  | ChangeTagInput string
  | RemoveTag nat
  | ClickSaveDraft
  | ClickPublish
  | Settle api_result
  | FetchSettled "(nat \<times> session_doc) option"

definition form_shown :: "editor \<Rightarrow> bool" where
  "form_shown s = (mounted s \<and> \<not> isLoading s)"

definition publish_disabled :: "editor \<Rightarrow> bool" where
  "publish_disabled s =
     (isSaving s \<or> trim (title (session s)) = [] \<or> trim (json_file_url (session s)) = [])"

fun step :: "(string \<Rightarrow> bool) \<Rightarrow> nat \<Rightarrow> event \<Rightarrow> editor \<Rightarrow> editor" where
  "step p now (ChangeTitle v) s =
     (if form_shown s then handleInputChange now (SetTitle v) s else s)"
| "step p now (ChangeJsonFileUrl v) s =
     (if form_shown s then handleInputChange now (SetJsonFileUrl v) s else s)"
| "step p now (ChangeTagInput v) s =
     (if form_shown s then handleTagInputChange now v s else s)"
| "step p now (RemoveTag i) s =
     (if form_shown s \<and> i < length (tags (session s)) then removeTag now i s else s)"
| "step p now ClickSaveDraft s =
     (if form_shown s \<and> \<not> isSaving s then handleSaveDraft now s else s)"
| "step p now ClickPublish s =
     (if form_shown s \<and> \<not> publish_disabled s then handlePublish p now s else s)"
| "step p now (Settle r) s = settle now r s"
| "step p now (FetchSettled r) s =
     (if mounted s \<and> isLoading s then fetch_settled now r s else s)"

text \<open>A run of the editor: each event at its time, after the timeouts due by then.\<close>

fun run :: "(string \<Rightarrow> bool) \<Rightarrow> (nat \<times> event) list \<Rightarrow> editor \<Rightarrow> editor" where
  "run p [] s = s"
| "run p ((t, e) # es) s = run p es (step p t e (advance t s))"

text \<open>The body of the request that \<open>api.saveDraft(session)\<close> and \<open>api.publishSession(session)\<close>
  send: the session object has the keys \<open>title\<close>, \<open>tags\<close>, \<open>json_file_url\<close>, \<open>status\<close> and
  \<open>_id\<close>, and no key \<open>id\<close>.\<close>

definition request_body :: "buffer \<Rightarrow> body" where
  "request_body b =
     \<lparr> body_id = None, body_title = Some (title b), body_tags = Some (tags b),
       body_json_file_url = Some (json_file_url b) \<rparr>"

text \<open>The field edits of the form: the three inputs that call \<open>handleInputChange\<close>.\<close>

definition is_field_edit :: "event \<Rightarrow> bool" where
  "is_field_edit e = (case e of ChangeTitle v \<Rightarrow> True | ChangeJsonFileUrl v \<Rightarrow> True
                | ChangeTagInput v \<Rightarrow> True | _ \<Rightarrow> False)"

text \<open>An edit that leaves the URL field blank.\<close>

definition clears_url :: "event \<Rightarrow> bool" where
  "clears_url e = (case e of ChangeJsonFileUrl v \<Rightarrow> trim v = [] | _ \<Rightarrow> False)"

text \<open>
  A burst of field edits after an edit at time \<open>t\<close>: each one comes less than 5000 ms
  after the one before; \<open>last_time\<close> is the time of its last edit.
\<close>

fun spaced :: "nat \<Rightarrow> (nat \<times> event) list \<Rightarrow> bool" where
  "spaced t [] = True"
| "spaced t ((t', e) # es) = (t \<le> t' \<and> t' < t + 5000 \<and> is_field_edit e \<and> spaced t' es)"

fun last_time :: "nat \<Rightarrow> (nat \<times> event) list \<Rightarrow> nat" where
  "last_time t [] = t"
| "last_time t ((t', e) # es) = last_time t' es"

text \<open>
  Invariants of the editor: at most one timeout is pending, and it is the one that the
  cleanup of the effect clears; at most one API call has not settled, and \<open>isSaving\<close> holds
  while one has not. \<open>armed t\<close>: the form is shown, nothing is being saved, and the one
  pending timeout is due 5000 ms after \<open>t\<close>.
\<close>

definition timer_inv :: "editor \<Rightarrow> bool" where
  "timer_inv s = (length (timers s) \<le> 1 \<and> (\<forall>tm \<in> set (timers s). effect_cleanup s = Some (fst tm)))"

definition single_flight :: "editor \<Rightarrow> bool" where
  "single_flight s = (length (awaiting s) \<le> 1 \<and> (awaiting s \<noteq> [] \<longrightarrow> isSaving s))"

definition armed :: "nat \<Rightarrow> editor \<Rightarrow> bool" where
  "armed t s = (form_shown s \<and> hasUnsavedChanges s \<and> \<not> isSaving s \<and> map snd (timers s) = [t + 5000])"

text \<open>Instances of the parameters, for concrete runs.\<close>

definition any_url :: "string \<Rightarrow> bool" where
  "any_url u = True"

definition bad_signature :: "string \<Rightarrow> verify_result" where
  "bad_signature token = Throws ''JsonWebTokenError''"

definition no_users :: "nat \<Rightarrow> string + unit option" where
  "no_users userId = Inr None"

text \<open>Concrete requests, records and clients.\<close>

definition flow_body :: body where
  "flow_body = \<lparr> body_id = None, body_title = Some ''Morning Flow'', body_tags = Some [''yoga''],
                 body_json_file_url = Some ''https://example.com/flow.json'' \<rparr>"

definition flow_doc :: session_doc where
  "flow_doc = \<lparr> title = ''Morning Flow'', tags = [''yoga''],
                json_file_url = ''https://example.com/flow.json'', status = Published,
                user_id = 1, created_at = 5, updated_at = 5 \<rparr>"

definition bad_url_body :: body where
  "bad_url_body = \<lparr> body_id = None, body_title = Some ''Morning Flow'', body_tags = Some [''yoga''],
                    body_json_file_url = Some ''not-a-url'' \<rparr>"

definition blank_title_body :: body where
  "blank_title_body = \<lparr> body_id = None, body_title = Some ''  '', body_tags = None,
                        body_json_file_url = Some ''https://example.com/flow.json'' \<rparr>"

definition no_url_body :: body where
  "no_url_body = \<lparr> body_id = None, body_title = Some ''Morning Flow'', body_tags = None,
                   body_json_file_url = None \<rparr>"

definition empty_buffer :: buffer where
  "empty_buffer = \<lparr> title = [], tags = [], json_file_url = [], status = Draft, oid = None \<rparr>"

definition untitled_buffer :: buffer where
  "untitled_buffer = \<lparr> title = [], tags = [''yoga''],
                       json_file_url = ''https://example.com/data/users.json'',
                       status = Draft, oid = None \<rparr>"

definition untitled_doc :: session_doc where
  "untitled_doc = \<lparr> title = ''Untitled Session'', tags = [''yoga''],
                    json_file_url = ''https://example.com/data/users.json'', status = Draft,
                    user_id = 1, created_at = 5, updated_at = 5 \<rparr>"

definition logged_in :: client where
  "logged_in = \<lparr> localStorage = [''wellness_token'' \<mapsto> ''abc'', ''wellness_user'' \<mapsto> ''u''],
                 location_href = ''/editor/new'' \<rparr>"

definition expired_signature :: "string \<Rightarrow> verify_result" where
  "expired_signature token = Throws ''TokenExpiredError''"

text \<open>Auxiliary predicates and concrete runs of the editor.\<close>

definition idle :: "editor \<Rightarrow> bool" where
  "idle s = (\<not> hasUnsavedChanges s \<or> isSaving s \<or> isEmptySession (session s))"

definition url_kept :: "editor \<Rightarrow> bool" where
  "url_kept s = (trim (json_file_url (session s)) \<noteq> [] \<and> \<not> isLoading s)"

definition yoga_burst :: "(nat \<times> event) list" where
  "yoga_burst = [(3000, ChangeTagInput ''Calm, yoga''), (7000, ChangeTitle ''Yoga flow'')]"

definition yoga_editor :: editor where
  "yoga_editor = run any_url yoga_burst (step any_url 1000 (ChangeTitle ''Yoga'') (mount None))"

definition yoga_buffer :: buffer where
  "yoga_buffer = \<lparr> title = ''Yoga flow'', tags = [''calm'', ''yoga''],
                    json_file_url = ''https://example.com/data/users.json'',
                    status = Draft, oid = None \<rparr>"

definition blank_url_editor :: editor where
  "blank_url_editor = run any_url [(0, ChangeJsonFileUrl '' '')] (mount None)"

definition no_url_editor :: editor where
  "no_url_editor = run any_url [(0, ChangeTitle ''Morning Flow''), (10, ChangeJsonFileUrl [])] (mount None)"

definition bad_url_editor :: editor where
  "bad_url_editor =
     run any_url [(0, ChangeTitle ''Morning Flow''), (10, ChangeJsonFileUrl ''not-a-url'')] (mount None)"

definition cleared_editor :: editor where
  "cleared_editor = run any_url [(0, ChangeJsonFileUrl [])] (mount None)"

definition saving_editor :: editor where
  "saving_editor = step any_url 100 ClickSaveDraft (mount None)"

definition typing_during_save :: "(nat \<times> event) list" where
  "typing_during_save = [(0, ChangeTitle ''a''), (5100, ChangeTitle ''ab'')]"

definition saved_meanwhile :: "(nat \<times> event) list" where
  "saved_meanwhile = [(0, ChangeTitle ''a''), (5100, ChangeTitle ''ab''), (5200, Settle (Resolved (Some 7)))]"

definition first_buffer :: buffer where
  "first_buffer = \<lparr> title = ''a'', tags = [],
                     json_file_url = ''https://example.com/data/users.json'',
                     status = Draft, oid = None \<rparr>"

definition idle_typing :: "(nat \<times> event) list" where
  "idle_typing = [(1000, ChangeTitle ''  ''), (2000, ChangeTagInput '' , '')]"

section \<open>Properties of the pagination\<close>

lemma round_half_even_one: "round_half_even x 1 = x"
  by (simp add: round_half_even_def)

lemma round_half_even_le:
  assumes "0 < d" and "n \<le> k * d"
  shows "round_half_even n d \<le> k"
proof -
  let ?q = "n div d" and ?r = "n mod d"
  have n: "n = ?q * d + ?r" by simp
  have r: "0 \<le> ?r" "?r < d" using assms(1) by simp_all
  have "?q * d \<le> k * d" using n r(1) assms(2) by linarith
  then have q: "?q \<le> k" using assms(1) by simp
  have up: "?q + 1 \<le> k" if "0 < ?r"
  proof -
    have "?q * d < k * d" using n that assms(2) by linarith
    then have "?q < k" using assms(1) by simp
    then show ?thesis by simp
  qed
  show ?thesis
  proof (cases "2 * ?r < d")
    case True
    then show ?thesis using q by (simp add: round_half_even_def)
  next
    case False
    with assms(1) have "0 < ?r" by linarith
    then have "?q + 1 \<le> k" by (rule up)
    with q show ?thesis by (simp add: round_half_even_def Let_def)
  qed
qed

lemma round_half_even_lower:
  assumes "0 < d"
  shows "2 * n \<le> 2 * (round_half_even n d * d) + d"
proof -
  let ?q = "n div d" and ?r = "n mod d"
  have n: "n = ?q * d + ?r" by simp
  have r: "0 \<le> ?r" "?r < d" using assms(1) by simp_all
  have a: "2 * n \<le> 2 * (?q * d) + d" if "2 * ?r \<le> d"
    using n that by linarith
  have b: "2 * n \<le> 2 * ((?q + 1) * d) + d"
  proof -
    have "(?q + 1) * d = ?q * d + d" by (simp add: algebra_simps)
    with n r show ?thesis by linarith
  qed
  show ?thesis
    using a b by (auto simp: round_half_even_def Let_def)
qed

lemma double_exponent_small:
  assumes "0 < n" and "n < 2 ^ 53" and "0 < d"
  shows "double_exponent n d \<le> 0 \<and> d < 2 * 2 ^ nat (- double_exponent n d)"
proof -
  let ?la = "bitlen n" and ?lb = "bitlen d"
  have la: "?la \<le> 53" using assms(2) by (simp add: bitlen_le_iff_power)
  have lb1: "1 \<le> ?lb" using assms(3) by (simp add: bitlen_ge_iff_power)
  have db: "d < 2 ^ nat ?lb" using bitlen_bounds [OF assms(3)] by simp
  let ?ez = "?la - ?lb - 53"
  let ?e = "double_exponent n d"
  have e: "?e = ?ez \<or> ?e = ?ez + 1" by (simp add: double_exponent_def Let_def)
  have e0: "?ez \<le> - 1" using la lb1 by linarith
  with e have le: "?e \<le> 0" by linarith
  have "?lb - 1 \<le> - ?e" using e la by linarith
  then have "nat ?lb \<le> Suc (nat (- ?e))" by linarith
  then have "(2::int) ^ nat ?lb \<le> 2 ^ Suc (nat (- ?e))"
    by (rule power_increasing) simp
  with db have "d < 2 * 2 ^ nat (- ?e)" by simp
  with le show ?thesis by simp
qed

lemma double_of_exact:
  assumes "0 < n" and "n < 2 ^ 53"
  shows "double_of n 1 = real_of_int n"
proof -
  from double_exponent_small [OF assms, of 1] have "double_exponent n 1 \<le> 0" by simp
  then have "nat (double_exponent n 1) = 0" by simp
  with assms(1) show ?thesis
    by (simp add: double_of_def double_significand_def round_half_even_one)
qed

lemma ceiling_double_of:
  assumes "0 \<le> a" and "a < 2 ^ 53" and "1 \<le> b"
  shows "\<lceil>double_of a b\<rceil> = \<lceil>real_of_int a / real_of_int b\<rceil>"
proof (cases "a = 0")
  case True
  then show ?thesis by (simp add: double_of_def)
next
  case False
  with assms(1) have a: "0 < a" by simp
  from assms(3) have b: "0 < b" by simp
  let ?e = "double_exponent a b"
  from double_exponent_small [OF a assms(2) b]
  have e: "?e \<le> 0" and sb: "b < 2 * 2 ^ nat (- ?e)" by simp_all
  define s :: int where "s = 2 ^ nat (- ?e)"
  define m where "m = round_half_even (a * s) b"
  define c where "c = \<lceil>real_of_int a / real_of_int b\<rceil>"
  have s: "0 < s" by (simp add: s_def)
  have ne: "nat ?e = 0" using e by simp
  have val: "double_of a b = real_of_int m / real_of_int s"
    using a ne by (simp add: double_of_def double_significand_def m_def s_def)
  have "real_of_int a / real_of_int b \<le> real_of_int c" by (simp add: c_def)
  then have "real_of_int a \<le> real_of_int c * real_of_int b"
    using b by (simp add: pos_divide_le_eq)
  then have up: "a \<le> c * b" by (metis of_int_le_iff of_int_mult)
  have "real_of_int c - 1 < real_of_int a / real_of_int b"
    unfolding c_def by linarith
  then have "(real_of_int c - 1) * real_of_int b < real_of_int a"
    using b by (simp add: pos_less_divide_eq)
  then have "real_of_int ((c - 1) * b) < real_of_int a" by simp
  then have lo: "(c - 1) * b < a" by (simp only: of_int_less_iff)
  have "a * s \<le> (c * b) * s" using up s by (simp add: mult_right_mono)
  then have "a * s \<le> (c * s) * b" by (simp add: algebra_simps)
  with b have mu: "m \<le> c * s" unfolding m_def by (rule round_half_even_le)
  from lo have "(c - 1) * b + 1 \<le> a" by simp
  then have "((c - 1) * b + 1) * s \<le> a * s" using s by (simp add: mult_right_mono)
  then have 1: "(c - 1) * s * b + s \<le> a * s" by (simp add: algebra_simps)
  from round_half_even_lower [OF b, of "a * s"]
  have 2: "2 * (a * s) \<le> 2 * (m * b) + b" by (simp add: m_def)
  from sb have 3: "b < 2 * s" by (simp add: s_def)
  from 1 2 3 have "2 * ((c - 1) * s * b) < 2 * (m * b)" by linarith
  then have "(c - 1) * s * b < m * b" by simp
  then have ml: "(c - 1) * s < m" using b by simp
  have "real_of_int m / real_of_int s \<le> real_of_int c"
  proof -
    from mu have "real_of_int m \<le> real_of_int (c * s)" by (simp only: of_int_le_iff)
    then show ?thesis using s by (simp add: pos_divide_le_eq)
  qed
  moreover have "real_of_int c - 1 < real_of_int m / real_of_int s"
  proof -
    from ml have "real_of_int ((c - 1) * s) < real_of_int m" by (simp only: of_int_less_iff)
    then show ?thesis using s by (simp add: pos_less_divide_eq)
  qed
  ultimately have "\<lceil>real_of_int m / real_of_int s\<rceil> = c" by (rule ceiling_unique [rotated])
  then show ?thesis by (simp add: val c_def)
qed

lemma bitlen_eqI:
  assumes "2 ^ k \<le> n" and "n < 2 ^ Suc k"
  shows "bitlen n = int (Suc k)"
proof (rule antisym)
  have "nat (int (Suc k)) = Suc k" by simp
  with assms(2) show "bitlen n \<le> int (Suc k)"
    by (simp only: bitlen_le_iff_power) simp
  have "nat (int (Suc k)) - 1 = k" by simp
  with assms(1) show "int (Suc k) \<le> bitlen n"
    by (simp only: bitlen_ge_iff_power) simp
qed

lemma less_ceiling_div:
  fixes page limit tot :: int
  assumes "0 < limit"
  shows "(page < \<lceil>real_of_int tot / real_of_int limit\<rceil>) = (page * limit < tot)"
proof -
  have "(page < \<lceil>real_of_int tot / real_of_int limit\<rceil>)
          = (real_of_int page < real_of_int tot / real_of_int limit)"
    by (rule less_ceiling_iff)
  also have "\<dots> = (real_of_int page * real_of_int limit < real_of_int tot)"
    using assms by (simp add: pos_less_divide_eq)
  also have "\<dots> = (page * limit < tot)"
    by (metis of_int_less_iff of_int_mult)
  finally show ?thesis .
qed

lemma js_mul_exact:
  assumes "0 < n" and "n < 2 ^ 53" and "n = a * b"
  shows "js_mul a b = Num (real_of_int n)"
proof -
  have "real_of_int n < 2 ^ 53" using assms(2) by (metis of_int_less_iff of_int_numeral of_int_power)
  moreover have "(2::real) ^ 53 < 2 ^ 1024" by simp
  ultimately have "real_of_int n < 2 ^ 1024" by (rule less_trans)
  moreover have "- (2 ^ 1024) < real_of_int n" using assms(1) by (simp add: less_le_trans [of _ 0])
  ultimately show ?thesis
    using double_of_exact [OF assms(1,2)] by (simp add: js_mul_def assms(3) [symmetric])
qed

lemma pagination_fields:
  assumes "1 \<le> page" and "1 \<le> limit" and "0 \<le> tot"
      and "page * limit < 2 ^ 53" and "tot < 2 ^ 53"
  shows "math_ceil (js_div tot limit) = Num (of_int \<lceil>real_of_int tot / real_of_int limit\<rceil>)"
    and "js_less (js_mul page limit) (Num (of_int tot)) = (page * limit < tot)"
proof -
  from assms(2) have pos: "0 < limit" by simp
  show "math_ceil (js_div tot limit) = Num (of_int \<lceil>real_of_int tot / real_of_int limit\<rceil>)"
    using pos ceiling_double_of [OF assms(3,5,2)] by (simp add: js_div_def math_ceil_def)
  have "0 < page * limit" using assms(1) pos by (simp add: mult_pos_pos)
  then have "js_mul page limit = Num (real_of_int (page * limit))"
    using assms(4) by (rule js_mul_exact) simp
  then show "js_less (js_mul page limit) (Num (of_int tot)) = (page * limit < tot)"
    by (simp only: js_less.simps of_int_less_iff)
qed

text \<open>
  C10, as amended. On both list endpoints, for integers \<open>page \<ge> 1\<close>, \<open>limit \<ge> 1\<close> and
  \<open>total \<ge> 0\<close> with \<open>page * limit\<close> and \<open>total\<close> below \<open>2^53\<close>, the field \<open>hasNextPage\<close> is
  \<open>page * limit < total\<close> and is true exactly when \<open>currentPage\<close> is less than \<open>totalPages\<close>,
  and \<open>totalPages\<close> is the ceiling of \<open>total / limit\<close>.
\<close>

theorem pagination_consistent:
  assumes "1 \<le> page" and "1 \<le> limit" and "0 \<le> tot"
      and "page * limit < 2 ^ 53" and "tot < 2 ^ 53"
  shows "totalPages (sessions_pagination page limit tot)
           = Num (of_int \<lceil>real_of_int tot / real_of_int limit\<rceil>)
       \<and> hasNextPage (sessions_pagination page limit tot) = (page * limit < tot)
       \<and> hasNextPage (sessions_pagination page limit tot)
           = js_less (Num (of_int (currentPage (sessions_pagination page limit tot))))
                     (totalPages (sessions_pagination page limit tot))
       \<and> totalPages (my_sessions_pagination page limit tot)
           = Num (of_int \<lceil>real_of_int tot / real_of_int limit\<rceil>)
       \<and> hasNextPage (my_sessions_pagination page limit tot) = (page * limit < tot)
       \<and> hasNextPage (my_sessions_pagination page limit tot)
           = js_less (Num (of_int (currentPage (my_sessions_pagination page limit tot))))
                     (totalPages (my_sessions_pagination page limit tot))"
proof -
  from assms(2) have pos: "0 < limit" by simp
  note f = pagination_fields [OF assms]
  have "js_less (Num (of_int page)) (Num (of_int \<lceil>real_of_int tot / real_of_int limit\<rceil>))
          = (page * limit < tot)"
    using less_ceiling_div [OF pos, of page tot] by (simp only: js_less.simps of_int_less_iff)
  with f show ?thesis
    by (simp add: sessions_pagination_def my_sessions_pagination_def)
qed

theorem pagination_consistent_witness:
  "(1::int) \<le> 2 \<and> (1::int) \<le> 20 \<and> (0::int) \<le> 50 \<and> (2::int) * 20 < 2 ^ 53 \<and> (50::int) < 2 ^ 53
   \<and> totalPages (sessions_pagination 2 20 50) = Num 3
   \<and> hasNextPage (sessions_pagination 2 20 50)
   \<and> totalPages (my_sessions_pagination 3 20 50) = Num 3
   \<and> \<not> hasNextPage (my_sessions_pagination 3 20 50)"
proof -
  have a: "(1::int) \<le> 2" and a': "(1::int) \<le> 3" and b: "(1::int) \<le> 20" and c: "(0::int) \<le> 50"
    and d: "(2::int) * 20 < 2 ^ 53" and d': "(3::int) * 20 < 2 ^ 53" and e: "(50::int) < 2 ^ 53"
    by simp_all
  from pagination_consistent [OF a b c d e]
  have 1: "totalPages (sessions_pagination 2 20 50) = Num 3"
    and 2: "hasNextPage (sessions_pagination 2 20 50)"
    by simp_all
  from pagination_consistent [OF a' b c d' e]
  have 3: "totalPages (my_sessions_pagination 3 20 50) = Num 3"
    and 4: "\<not> hasNextPage (my_sessions_pagination 3 20 50)"
    by simp_all
  from a b c d e 1 2 3 4 show ?thesis by (intro conjI)
qed

text \<open>
  C10 as stated fails: for \<open>page = 94906267\<close>, \<open>limit = 94906269\<close> and
  \<open>total = 9007199705687824\<close> the product \<open>9007199705687823\<close> is rounded to the total, so
  \<open>hasNextPage\<close> is false while \<open>currentPage\<close> is less than \<open>totalPages = 94906268\<close>.
\<close>

theorem pagination_consistent_counterexample:
  "js_mul 94906267 94906269 = Num 9007199705687824
   \<and> \<not> hasNextPage (sessions_pagination 94906267 94906269 9007199705687824)
   \<and> currentPage (sessions_pagination 94906267 94906269 9007199705687824) = 94906267
   \<and> totalPages (sessions_pagination 94906267 94906269 9007199705687824) = Num 94906268
   \<and> js_less (Num 94906267) (Num 94906268)"
proof -
  have b1: "bitlen 1 = 1" using bitlen_eqI [of 0 1] by simp
  have b2: "bitlen 9007199705687823 = 54" using bitlen_eqI [of 53 9007199705687823] by simp
  have b3: "bitlen 9007199705687824 = 54" using bitlen_eqI [of 53 9007199705687824] by simp
  have b4: "bitlen 94906269 = 27" using bitlen_eqI [of 26 94906269] by simp
  have m: "js_mul 94906267 94906269 = Num 9007199705687824"
    by (simp add: js_mul_def double_of_def double_significand_def double_exponent_def
          round_half_even_def b1 b2 Let_def)
  have q: "double_of 9007199705687824 94906269 = 6369051764850689 / 67108864"
    by (simp add: double_of_def double_significand_def double_exponent_def
          round_half_even_def b3 b4 Let_def)
  have t: "totalPages (sessions_pagination 94906267 94906269 9007199705687824) = Num 94906268"
    by (simp add: sessions_pagination_def js_div_def math_ceil_def q)
  from m t show ?thesis
    by (simp add: sessions_pagination_def)
qed

section \<open>Evaluation of concrete inputs\<close>

lemmas string_defs = trim_def isWhiteSpace_def toLowerCase_def lowerChar_def startsWith_def

lemmas eval_defs =
  trim_def isWhiteSpace_def toLowerCase_def lowerChar_def startsWith_def or_default_def
  write_session_def create_def cast_session_def validation_errors_def title_errors_def
  tag_errors_def url_errors_def url_regex_test_def isLineTerminator_def body_tag_list_def
  save_draft_def draft_data_def empty_db_def Let_def

lemmas editor_defs =
  mount_def initialState_def advance_def fire_def autoSave_def handleInputChange_def
  handleTagInputChange_def removeTag_def handleSaveDraft_def handlePublish_def settle_def
  settled_def adopt_id_def adopts_def render_def run_effect_def clearTimeout_def issue_def
  isEmptySession_def form_shown_def publish_disabled_def toast_error_def toast_success_def
  navigate_def validateUrl_def any_url_def Let_def

section \<open>Properties of the schema and the routes\<close>

lemma trim_nil [simp]: "trim [] = []"
  by (simp add: trim_def)

lemma last_dropWhile:
  assumes "dropWhile P xs \<noteq> []"
  shows "last (dropWhile P xs) = last xs"
proof -
  have "xs = takeWhile P xs @ dropWhile P xs" by simp
  then have "last xs = last (takeWhile P xs @ dropWhile P xs)" by simp
  also have "\<dots> = last (dropWhile P xs)" using assms by (rule last_appendR)
  finally show ?thesis by simp
qed

lemma trim_idem [simp]: "trim (trim s) = trim s"
proof -
  let ?a = "dropWhile isWhiteSpace s"
  let ?b = "dropWhile isWhiteSpace (rev ?a)"
  have b: "trim s = rev ?b" by (simp add: trim_def)
  show ?thesis
  proof (cases "?b = []")
    case True
    with b have "trim s = []" by simp
    then show ?thesis by simp
  next
    case False
    have a: "?a \<noteq> []"
    proof
      assume e: "?a = []"
      have "?b = dropWhile isWhiteSpace (rev [])" by (simp only: e)
      then have "?b = []" by (simp only: rev.simps dropWhile.simps)
      with False show False by blast
    qed
    have "last ?b = last (rev ?a)" using False by (rule last_dropWhile)
    also have "\<dots> = hd ?a" using a by (simp add: last_rev)
    finally have "\<not> isWhiteSpace (last ?b)" using a hd_dropWhile [of isWhiteSpace s] by simp
    then have "\<not> isWhiteSpace (hd (rev ?b))" using False by (simp add: hd_rev)
    then have 1: "dropWhile isWhiteSpace (rev ?b) = rev ?b"
      by (simp add: dropWhile_eq_self_iff)
    have 2: "dropWhile isWhiteSpace ?b = ?b" by (rule dropWhile_idem)
    have "trim (rev ?b) = rev (dropWhile isWhiteSpace (rev (dropWhile isWhiteSpace (rev ?b))))"
      by (simp only: trim_def)
    also have "\<dots> = rev ?b" by (simp only: 1 rev_rev_ident 2)
    finally show ?thesis by (simp only: b)
  qed
qed

lemma valid_cast_fields:
  assumes "validation_errors c = []"
  shows "title c \<noteq> [] \<and> json_file_url c \<noteq> [] \<and> url_regex_test (json_file_url c)"
  using assms
  by (auto simp: validation_errors_def title_errors_def url_errors_def split: if_splits)

lemma create_inv:
  assumes "db_inv db"
  shows "db_inv (snd (create now sd db))"
  using assms valid_cast_fields [of "cast_session sd"]
  by (auto simp: create_def Let_def db_inv_def published_ok_def)

lemma findOneAndUpdate_inv:
  assumes "db_inv db"
  shows "db_inv (snd (findOneAndUpdate now i uid sd db))"
  using assms valid_cast_fields [of "cast_session sd"]
  by (auto simp: findOneAndUpdate_def Let_def db_inv_def published_ok_def split: option.splits)

lemma write_session_snd:
  "snd (write_session m now uid sid sd db) =
     (case sid of Some i \<Rightarrow> snd (findOneAndUpdate now i uid sd db) | None \<Rightarrow> snd (create now sd db))"
  by (auto simp: write_session_def split: option.splits prod.splits sum.splits)

lemma write_session_inv:
  assumes "db_inv db"
  shows "db_inv (snd (write_session m now uid sid sd db))"
  using assms by (simp add: write_session_snd create_inv findOneAndUpdate_inv split: option.splits)

lemma save_draft_inv: "db_inv db \<Longrightarrow> db_inv (snd (save_draft now uid b db))"
  by (simp add: save_draft_def write_session_inv)

lemma publish_inv: "db_inv db \<Longrightarrow> db_inv (snd (publish now uid b db))"
  by (simp add: publish_def write_session_inv)

lemma delete_session_inv: "db_inv db \<Longrightarrow> db_inv (snd (delete_session uid i db))"
  by (auto simp: delete_session_def db_inv_def split: option.splits)

lemma apply_write_inv: "db_inv db \<Longrightarrow> db_inv (apply_write w db)"
  by (cases w) (simp_all add: save_draft_inv publish_inv delete_session_inv)

lemma apply_writes_inv: "db_inv db \<Longrightarrow> db_inv (apply_writes ws db)"
  by (induction ws arbitrary: db) (simp_all add: apply_write_inv)

lemma empty_db_inv: "db_inv empty_db"
  by (simp add: db_inv_def empty_db_def)

lemma write_session_invalid:
  assumes "validation_errors (cast_session sd) \<noteq> []"
  shows "write_session m now uid sid sd db
           = (Failure 400 (js_join '', '' (validation_errors (cast_session sd))), db)"
  using assms
  by (simp add: write_session_def create_def findOneAndUpdate_def Let_def split: option.splits)

lemma url_errors_invalid:
  assumes "\<not> url_regex_test u"
  shows "url_errors u \<noteq> []"
  using assms by (simp add: url_errors_def)

lemma publish_invalid_url:
  assumes "\<not> blank (body_title b)" and "\<not> blank (body_json_file_url b)"
      and "\<not> url_regex_test (trim (or_default (body_json_file_url b) []))"
  shows "publish now uid b db
           = (Failure 400 (js_join '', '' (validation_errors (cast_session (publish_data uid b)))), db)"
proof -
  have "url_errors (trim (or_default (body_json_file_url b) [])) \<noteq> []"
    using assms(3) by (rule url_errors_invalid)
  then have "validation_errors (cast_session (publish_data uid b)) \<noteq> []"
    by (simp add: validation_errors_def cast_session_def publish_data_def)
  then show ?thesis
    using assms(1,2) by (simp add: publish_def write_session_invalid)
qed

text \<open>
  C5. Whatever writes reach the collection, starting from the empty one, every record with
  status \<open>published\<close> has a title and a data URL that are not empty, and the URL matches
  \<open>http(s)://...\<close>. The publish route answers a request whose title or URL is missing or
  blank with status 400, before any write; a URL that does not match the pattern fails
  the validation of the schema, again with status 400 and nothing written.
\<close>

theorem published_invariant:
  "db_inv (apply_writes ws empty_db)
   \<and> (blank (body_title b) \<longrightarrow>
        publish now uid b db = (Failure 400 ''Title is required for publishing'', db))
   \<and> (\<not> blank (body_title b) \<and> blank (body_json_file_url b) \<longrightarrow>
        publish now uid b db = (Failure 400 ''JSON file URL is required for publishing'', db))
   \<and> (\<not> blank (body_title b) \<and> \<not> blank (body_json_file_url b)
        \<and> \<not> url_regex_test (trim (or_default (body_json_file_url b) [])) \<longrightarrow>
        snd (publish now uid b db) = db \<and> (\<exists>m. fst (publish now uid b db) = Failure 400 m))"
proof -
  have 1: "db_inv (apply_writes ws empty_db)"
    using empty_db_inv by (rule apply_writes_inv)
  have 2: "blank (body_title b) \<longrightarrow>
        publish now uid b db = (Failure 400 ''Title is required for publishing'', db)"
    by (simp add: publish_def)
  have 3: "\<not> blank (body_title b) \<and> blank (body_json_file_url b) \<longrightarrow>
        publish now uid b db = (Failure 400 ''JSON file URL is required for publishing'', db)"
    by (simp add: publish_def)
  have 4: "\<not> blank (body_title b) \<and> \<not> blank (body_json_file_url b)
        \<and> \<not> url_regex_test (trim (or_default (body_json_file_url b) [])) \<longrightarrow>
        snd (publish now uid b db) = db \<and> (\<exists>m. fst (publish now uid b db) = Failure 400 m)"
    using publish_invalid_url [of b now uid db] by simp
  from 1 2 3 4 show ?thesis by (intro conjI)
qed

theorem published_invariant_witness:
  "docs (apply_writes [Publish 5 1 flow_body] empty_db) 0 = Some flow_doc
   \<and> status flow_doc = Published \<and> title flow_doc \<noteq> [] \<and> json_file_url flow_doc \<noteq> []
   \<and> url_regex_test (json_file_url flow_doc)
   \<and> blank (body_title blank_title_body)
   \<and> publish 5 1 blank_title_body empty_db = (Failure 400 ''Title is required for publishing'', empty_db)
   \<and> \<not> blank (body_title no_url_body) \<and> blank (body_json_file_url no_url_body)
   \<and> publish 5 1 no_url_body empty_db
        = (Failure 400 ''JSON file URL is required for publishing'', empty_db)
   \<and> \<not> blank (body_title bad_url_body) \<and> \<not> blank (body_json_file_url bad_url_body)
   \<and> \<not> url_regex_test (trim (or_default (body_json_file_url bad_url_body) []))
   \<and> snd (publish 5 1 bad_url_body empty_db) = empty_db"
proof -
  have stored: "docs (apply_writes [Publish 5 1 flow_body] empty_db) 0 = Some flow_doc"
    by (simp add: flow_body_def flow_doc_def publish_def publish_data_def blank_def eval_defs)
  have st: "status flow_doc = Published" by (simp add: flow_doc_def)
  have h1: "blank (body_title blank_title_body)"
    by (simp add: blank_title_body_def blank_def trim_def isWhiteSpace_def)
  have h2: "\<not> blank (body_title no_url_body) \<and> blank (body_json_file_url no_url_body)"
    by (simp add: no_url_body_def blank_def trim_def isWhiteSpace_def)
  have h3: "\<not> blank (body_title bad_url_body) \<and> \<not> blank (body_json_file_url bad_url_body)
            \<and> \<not> url_regex_test (trim (or_default (body_json_file_url bad_url_body) []))"
    by (simp add: bad_url_body_def blank_def trim_def isWhiteSpace_def or_default_def
          url_regex_test_def startsWith_def)
  from published_invariant [of "[Publish 5 1 flow_body]" blank_title_body 5 1 empty_db]
  have inv: "db_inv (apply_writes [Publish 5 1 flow_body] empty_db)"
    and r1: "publish 5 1 blank_title_body empty_db
               = (Failure 400 ''Title is required for publishing'', empty_db)"
    using h1 by simp_all
  from inv stored have "published_ok flow_doc" by (simp add: db_inv_def)
  with st have ok: "title flow_doc \<noteq> [] \<and> json_file_url flow_doc \<noteq> []
                    \<and> url_regex_test (json_file_url flow_doc)"
    by (simp add: published_ok_def)
  from published_invariant [of "[]" no_url_body 5 1 empty_db] h2
  have r2: "publish 5 1 no_url_body empty_db
              = (Failure 400 ''JSON file URL is required for publishing'', empty_db)"
    by simp
  from published_invariant [of "[]" bad_url_body 5 1 empty_db] h3
  have r3: "snd (publish 5 1 bad_url_body empty_db) = empty_db"
    by simp
  from stored st ok h1 r1 h2 r2 h3 r3 show ?thesis by simp
qed

lemma write_session_saved:
  assumes "write_session msg now uid sid sd db = (Saved m i d, db')"
  shows "docs db' i = Some d \<and> user_id d = user_id sd \<and> status d = status sd
       \<and> title d = trim (title sd) \<and> tags d = map (\<lambda>tag. toLowerCase (trim tag)) (tags sd)
       \<and> json_file_url d = trim (json_file_url sd)
       \<and> validation_errors (cast_session sd) = []"
proof (cases sid)
  case None
  with assms show ?thesis
    by (auto simp: write_session_def create_def cast_session_def Let_def split: if_splits)
next
  case (Some j)
  with assms show ?thesis
    by (auto simp: write_session_def findOneAndUpdate_def cast_session_def Let_def
             split: if_splits option.splits)
qed

lemma save_draft_saved:
  assumes "save_draft now uid b db = (Saved m i d, db')"
  shows "docs db' i = Some d \<and> user_id d = uid \<and> status d = Draft
       \<and> title d = trim (or_default (body_title b) ''Untitled Session'')
       \<and> tags d = map (\<lambda>tag. toLowerCase (trim tag)) (body_tag_list b)
       \<and> json_file_url d = trim (or_default (body_json_file_url b) [])"
  using write_session_saved [OF assms [unfolded save_draft_def]]
  by (simp add: draft_data_def)

text \<open>
  C8, as amended. When save-draft succeeds, loading the record by the returned \<open>_id\<close>, as
  the same user, returns the record of the save response: status \<open>draft\<close>, the title
  trimmed (\<open>Untitled Session\<close> for an empty one), the tags that are not blank, trimmed and
  in lower case, and the URL trimmed.
\<close>

theorem save_then_load:
  assumes "save_draft now uid b db = (Saved m i d, db')"
  shows "get_my_session uid i db' = Found i d
       \<and> status d = Draft
       \<and> title d = trim (or_default (body_title b) ''Untitled Session'')
       \<and> tags d = map (\<lambda>tag. toLowerCase (trim tag)) (body_tag_list b)
       \<and> json_file_url d = trim (or_default (body_json_file_url b) [])"
  using save_draft_saved [OF assms] by (simp add: get_my_session_def)

theorem save_then_load_witness:
  "save_draft 5 1 (request_body untitled_buffer) empty_db
     = (Saved ''Draft saved successfully'' 0 untitled_doc,
        snd (save_draft 5 1 (request_body untitled_buffer) empty_db))
   \<and> get_my_session 1 0 (snd (save_draft 5 1 (request_body untitled_buffer) empty_db))
        = Found 0 untitled_doc
   \<and> status untitled_doc = Draft
   \<and> title untitled_doc = ''Untitled Session''
   \<and> tags untitled_doc = [''yoga'']
   \<and> json_file_url untitled_doc = ''https://example.com/data/users.json''"
proof -
  have "fst (save_draft 5 1 (request_body untitled_buffer) empty_db)
          = Saved ''Draft saved successfully'' 0 untitled_doc"
    by (simp add: untitled_buffer_def untitled_doc_def request_body_def eval_defs)
  then have h: "save_draft 5 1 (request_body untitled_buffer) empty_db
     = (Saved ''Draft saved successfully'' 0 untitled_doc,
        snd (save_draft 5 1 (request_body untitled_buffer) empty_db))"
    by (simp add: prod_eq_iff)
  from save_then_load [OF h]
  have a: "get_my_session 1 0 (snd (save_draft 5 1 (request_body untitled_buffer) empty_db))
             = Found 0 untitled_doc"
    and b: "status untitled_doc = Draft"
    by blast+
  have c: "title untitled_doc = ''Untitled Session''" "tags untitled_doc = [''yoga'']"
    "json_file_url untitled_doc = ''https://example.com/data/users.json''"
    by (simp_all add: untitled_doc_def)
  from h a b c show ?thesis by (intro conjI)
qed

text \<open>
  C8 as stated fails: a buffer with an empty title is saved and loaded with the title
  \<open>Untitled Session\<close>.
\<close>

theorem save_then_load_counterexample:
  "fst (save_draft 5 1 (request_body untitled_buffer) empty_db)
     = Saved ''Draft saved successfully'' 0 untitled_doc
   \<and> get_my_session 1 0 (snd (save_draft 5 1 (request_body untitled_buffer) empty_db))
        = Found 0 untitled_doc
   \<and> title untitled_buffer = []
   \<and> title untitled_doc = ''Untitled Session''"
  by (simp add: untitled_buffer_def untitled_doc_def request_body_def get_my_session_def eval_defs)

section \<open>Properties of the middleware and the interceptor\<close>

lemma auth_catch_simps [simp]:
  "auth_catch ''TokenExpiredError'' = Denied 401 ''Token expired. Please login again.''"
  "auth_catch ''JsonWebTokenError'' = Denied 403 ''Invalid token.''"
  by (simp_all add: auth_catch_def)

text \<open>
  C7, as amended. A request with no token, with an expired token, or with a token whose
  user no longer exists is answered with status 401, and on a 401 the client removes the
  stored token and user and goes to the login page. A token that fails verification with
  \<open>JsonWebTokenError\<close> is answered with status 403, and on any status other than 401 the
  client keeps its session.
\<close>

theorem auth_failure_status:
  "(token_of h = None \<longrightarrow>
      authenticateToken verify findById h = Denied 401 ''Access denied. No token provided.'')
   \<and> (token_of h = Some tok \<and> verify tok = Throws ''TokenExpiredError'' \<longrightarrow>
      authenticateToken verify findById h = Denied 401 ''Token expired. Please login again.'')
   \<and> (token_of h = Some tok \<and> verify tok = Decoded u \<and> findById u = Inr None \<longrightarrow>
      authenticateToken verify findById h = Denied 401 ''Invalid token. User not found.'')
   \<and> (token_of h = Some tok \<and> verify tok = Throws ''JsonWebTokenError'' \<longrightarrow>
      authenticateToken verify findById h = Denied 403 ''Invalid token.'')
   \<and> response_rejected (denied_error 401 msg) c
        = (or_default (Some msg) ''Request failed'',
           c\<lparr> localStorage := (localStorage c)(''wellness_token'' := None, ''wellness_user'' := None),
              location_href := ''/login'' \<rparr>)
   \<and> (code \<noteq> 401 \<longrightarrow> snd (response_rejected (denied_error code msg) c) = c)"
  by (simp add: authenticateToken_def response_rejected_def denied_error_def Let_def or_default_def)

theorem auth_failure_status_witness:
  "token_of None = None
   \<and> authenticateToken expired_signature no_users None = Denied 401 ''Access denied. No token provided.''
   \<and> token_of (Some ''Bearer abc'') = Some ''abc''
   \<and> expired_signature ''abc'' = Throws ''TokenExpiredError''
   \<and> authenticateToken expired_signature no_users (Some ''Bearer abc'')
        = Denied 401 ''Token expired. Please login again.''
   \<and> bad_signature ''abc'' = Throws ''JsonWebTokenError''
   \<and> authenticateToken bad_signature no_users (Some ''Bearer abc'') = Denied 403 ''Invalid token.''
   \<and> localStorage (snd (response_rejected (denied_error 401 ''Token expired. Please login again.'') logged_in))
        ''wellness_token'' = None
   \<and> location_href (snd (response_rejected (denied_error 401 ''Token expired. Please login again.'') logged_in))
        = ''/login''
   \<and> (403::nat) \<noteq> 401
   \<and> snd (response_rejected (denied_error 403 ''Invalid token.'') logged_in) = logged_in"
proof -
  have t0: "token_of None = None" by (simp add: token_of_def)
  have t1: "token_of (Some ''Bearer abc'') = Some ''abc''" by (simp add: token_of_def)
  have v1: "expired_signature ''abc'' = Throws ''TokenExpiredError''"
    by (simp add: expired_signature_def)
  have v2: "bad_signature ''abc'' = Throws ''JsonWebTokenError''"
    by (simp add: bad_signature_def)
  have n: "(403::nat) \<noteq> 401" by simp
  note a = auth_failure_status [of None expired_signature no_users "''abc''" 0
      "''Token expired. Please login again.''" logged_in 403]
  note b = auth_failure_status [of "Some ''Bearer abc''" expired_signature no_users "''abc''" 0
      "''Invalid token.''" logged_in 403]
  note c = auth_failure_status [of "Some ''Bearer abc''" bad_signature no_users "''abc''" 0
      "''Invalid token.''" logged_in 403]
  from a t0 have r0: "authenticateToken expired_signature no_users None
                        = Denied 401 ''Access denied. No token provided.''" by blast
  from b t1 v1 have r1: "authenticateToken expired_signature no_users (Some ''Bearer abc'')
        = Denied 401 ''Token expired. Please login again.''" by blast
  from c t1 v2 have r2: "authenticateToken bad_signature no_users (Some ''Bearer abc'')
        = Denied 403 ''Invalid token.''" by blast
  from a have r3: "response_rejected (denied_error 401 ''Token expired. Please login again.'') logged_in
        = (or_default (Some ''Token expired. Please login again.'') ''Request failed'',
           logged_in\<lparr> localStorage := (localStorage logged_in)(''wellness_token'' := None, ''wellness_user'' := None),
              location_href := ''/login'' \<rparr>)" by blast
  from c n have r4: "snd (response_rejected (denied_error 403 ''Invalid token.'') logged_in) = logged_in"
    by blast
  from r3 have r5: "localStorage (snd (response_rejected (denied_error 401 ''Token expired. Please login again.'') logged_in))
        ''wellness_token'' = None"
    and r6: "location_href (snd (response_rejected (denied_error 401 ''Token expired. Please login again.'') logged_in))
        = ''/login''"
    by simp_all
  from t0 r0 t1 v1 r1 v2 r2 r5 r6 n r4 show ?thesis by (intro conjI)
qed

text \<open>
  C7 as stated fails: a token with a bad signature is answered with status 403, and the
  client keeps the stored token and stays on its page.
\<close>

theorem auth_failure_status_counterexample:
  "authenticateToken bad_signature no_users (Some ''Bearer abc'') = Denied 403 ''Invalid token.''
   \<and> response_rejected (denied_error 403 ''Invalid token.'') logged_in = (''Invalid token.'', logged_in)"
  by (simp add: authenticateToken_def token_of_def bad_signature_def response_rejected_def
        denied_error_def or_default_def Let_def)

section \<open>Invariants of the editor\<close>

lemma filter_timers_nil:
  assumes "\<forall>tm \<in> set ts. h = fst tm"
  shows "filter (\<lambda>(h', d). h' \<noteq> h) ts = []"
  using assms by (induction ts) auto

lemma clearTimeout_inv:
  assumes "timer_inv s"
  shows "timer_inv (clearTimeout h s)"
proof -
  have "length (filter (\<lambda>(h', d). h' \<noteq> h) (timers s)) \<le> length (timers s)"
    by (rule length_filter_le)
  moreover from assms have "length (timers s) \<le> 1"
    by (simp add: timer_inv_def)
  ultimately have "length (filter (\<lambda>(h', d). h' \<noteq> h) (timers s)) \<le> 1"
    by (rule le_trans)
  with assms show ?thesis
    by (simp add: timer_inv_def clearTimeout_def)
qed

lemma cleanup_clears:
  assumes "timer_inv s" and "effect_cleanup s = Some h"
  shows "filter (\<lambda>(h', d). h' \<noteq> h) (timers s) = []"
proof (rule filter_timers_nil)
  from assms show "\<forall>tm\<in>set (timers s). h = fst tm"
    by (simp add: timer_inv_def)
qed

lemma timers_nil_no_cleanup:
  assumes "timer_inv s" and "effect_cleanup s = None"
  shows "timers s = []"
proof (cases "timers s")
  case Nil
  then show ?thesis .
next
  case (Cons tm ts)
  with assms(1) have "effect_cleanup s = Some (fst tm)" by (simp add: timer_inv_def)
  with assms(2) show ?thesis by simp
qed

lemma run_effect_timers:
  assumes "timer_inv s"
  shows "timers (run_effect now s) =
           (if hasUnsavedChanges s \<and> \<not> isSaving s then [(next_handle s, now + 5000)] else [])
       \<and> effect_cleanup (run_effect now s) =
           (if hasUnsavedChanges s \<and> \<not> isSaving s then Some (next_handle s) else None)"
proof (cases "effect_cleanup s")
  case None
  with assms have "timers s = []" by (rule timers_nil_no_cleanup)
  with None show ?thesis
    by (simp add: run_effect_def Let_def)
next
  case (Some h)
  with assms have "filter (\<lambda>(h', d). h' \<noteq> h) (timers s) = []" by (rule cleanup_clears)
  with Some show ?thesis
    by (simp add: run_effect_def Let_def clearTimeout_def)
qed

lemma run_effect_inv:
  assumes "timer_inv s"
  shows "timer_inv (run_effect now s)"
  using run_effect_timers [OF assms, of now] by (simp add: timer_inv_def)

lemma render_inv: "timer_inv new \<Longrightarrow> timer_inv (render now b old new)"
  by (simp add: render_def run_effect_inv)

lemma navigate_inv:
  assumes "timer_inv s"
  shows "timer_inv (navigate a s)"
proof (cases "effect_cleanup s")
  case None
  with assms have "timers s = []" by (rule timers_nil_no_cleanup)
  with None show ?thesis
    by (simp add: navigate_def Let_def timer_inv_def)
next
  case (Some h)
  with assms have "filter (\<lambda>(h', d). h' \<noteq> h) (timers s) = []" by (rule cleanup_clears)
  with Some show ?thesis
    by (simp add: navigate_def Let_def clearTimeout_def timer_inv_def)
qed

lemma run_effect_fields [simp]:
  "session (run_effect now s) = session s"
  "isLoading (run_effect now s) = isLoading s"
  "isSaving (run_effect now s) = isSaving s"
  "hasUnsavedChanges (run_effect now s) = hasUnsavedChanges s"
  "awaiting (run_effect now s) = awaiting s"
  "calls (run_effect now s) = calls s"
  "toasts (run_effect now s) = toasts s"
  "mounted (run_effect now s) = mounted s"
  "lastSaved (run_effect now s) = lastSaved s"
  by (simp_all add: run_effect_def Let_def clearTimeout_def split: option.splits)

lemma render_fields [simp]:
  "session (render now b old new) = session new"
  "isLoading (render now b old new) = isLoading new"
  "isSaving (render now b old new) = isSaving new"
  "hasUnsavedChanges (render now b old new) = hasUnsavedChanges new"
  "awaiting (render now b old new) = awaiting new"
  "calls (render now b old new) = calls new"
  "toasts (render now b old new) = toasts new"
  "mounted (render now b old new) = mounted new"
  "lastSaved (render now b old new) = lastSaved new"
  by (simp_all add: render_def)

lemma navigate_fields [simp]:
  "session (navigate a s) = session s"
  "isLoading (navigate a s) = isLoading s"
  "isSaving (navigate a s) = isSaving s"
  "hasUnsavedChanges (navigate a s) = hasUnsavedChanges s"
  "awaiting (navigate a s) = awaiting s"
  "calls (navigate a s) = calls s"
  "toasts (navigate a s) = toasts s"
  "mounted (navigate a s) = False"
  "lastSaved (navigate a s) = lastSaved s"
  by (simp_all add: navigate_def Let_def clearTimeout_def split: option.splits)

lemma issue_fields [simp]:
  "session (issue now origin c s) = session s"
  "isLoading (issue now origin c s) = isLoading s"
  "isSaving (issue now origin c s) = isSaving s"
  "hasUnsavedChanges (issue now origin c s) = hasUnsavedChanges s"
  "awaiting (issue now origin c s) = awaiting s @ [(origin, session s)]"
  "calls (issue now origin c s) = calls s @ [(now, c)]"
  "toasts (issue now origin c s) = toasts s"
  "mounted (issue now origin c s) = mounted s"
  "lastSaved (issue now origin c s) = lastSaved s"
  "timers (issue now origin c s) = timers s"
  "effect_cleanup (issue now origin c s) = effect_cleanup s"
  "next_handle (issue now origin c s) = next_handle s"
  by (simp_all add: issue_def)

lemma issue_inv [simp]: "timer_inv (issue now origin c s) = timer_inv s"
  by (simp add: timer_inv_def)

lemma autoSave_inv:
  assumes "timer_inv s"
  shows "timer_inv (autoSave now s)"
proof -
  from assms have "timer_inv (s\<lparr> isSaving := True \<rparr>)"
    by (simp add: timer_inv_def)
  then show ?thesis
    using assms by (simp add: autoSave_def render_inv)
qed

lemma handleSaveDraft_inv:
  assumes "timer_inv s"
  shows "timer_inv (handleSaveDraft now s)"
proof -
  from assms have "timer_inv (s\<lparr> isSaving := True \<rparr>)"
    by (simp add: timer_inv_def)
  then show ?thesis
    by (simp add: handleSaveDraft_def render_inv)
qed

lemma toast_inv [simp]:
  "timer_inv (toast_error m s) = timer_inv s"
  "timer_inv (toast_success m s) = timer_inv s"
  by (simp_all add: timer_inv_def toast_error_def toast_success_def)

lemma handlePublish_inv:
  assumes "timer_inv s"
  shows "timer_inv (handlePublish p now s)"
proof -
  from assms have "timer_inv (s\<lparr> isSaving := True \<rparr>)"
    by (simp add: timer_inv_def)
  then show ?thesis
    using assms by (simp add: handlePublish_def render_inv)
qed

lemma handleInputChange_inv:
  assumes "timer_inv s"
  shows "timer_inv (handleInputChange now e s)"
proof -
  let ?s1 = "s\<lparr> session := set_field e (session s), hasUnsavedChanges := True \<rparr>"
  from assms have 1: "timer_inv ?s1"
    by (simp add: timer_inv_def)
  then have "timer_inv (case autoSaveTimer s of None \<Rightarrow> ?s1 | Some h \<Rightarrow> clearTimeout h ?s1)"
    by (simp add: clearTimeout_inv split: option.splits)
  then show ?thesis
    by (simp add: handleInputChange_def Let_def render_inv)
qed

lemma handleTagInputChange_inv:
  assumes "timer_inv s"
  shows "timer_inv (handleTagInputChange now v s)"
proof -
  from assms have "timer_inv (s\<lparr> tagInput := v \<rparr>)"
    by (simp add: timer_inv_def)
  then show ?thesis
    by (simp add: handleTagInputChange_def Let_def handleInputChange_inv)
qed

lemma removeTag_inv:
  assumes "timer_inv s"
  shows "timer_inv (removeTag now i s)"
proof -
  from assms have "timer_inv (s\<lparr> session := (session s)\<lparr> tags := ts \<rparr>,
               tagInput := ti, hasUnsavedChanges := True \<rparr>)" for ts ti
    by (simp add: timer_inv_def)
  then show ?thesis
    by (simp add: removeTag_def Let_def render_inv)
qed

lemma adopt_id_fields [simp]:
  "isLoading (adopt_id c rid s) = isLoading s"
  "isSaving (adopt_id c rid s) = isSaving s"
  "hasUnsavedChanges (adopt_id c rid s) = hasUnsavedChanges s"
  "awaiting (adopt_id c rid s) = awaiting s"
  "calls (adopt_id c rid s) = calls s"
  "toasts (adopt_id c rid s) = toasts s"
  "mounted (adopt_id c rid s) = mounted s"
  "timers (adopt_id c rid s) = timers s"
  "effect_cleanup (adopt_id c rid s) = effect_cleanup s"
  "json_file_url (session (adopt_id c rid s)) = json_file_url (session s)"
  "title (session (adopt_id c rid s)) = title (session s)"
  "tags (session (adopt_id c rid s)) = tags (session s)"
  by (simp_all add: adopt_id_def split: option.splits)

lemma toast_fields [simp]:
  "session (toast_error m s) = session s"
  "isLoading (toast_error m s) = isLoading s"
  "isSaving (toast_error m s) = isSaving s"
  "hasUnsavedChanges (toast_error m s) = hasUnsavedChanges s"
  "awaiting (toast_error m s) = awaiting s"
  "calls (toast_error m s) = calls s"
  "mounted (toast_error m s) = mounted s"
  "timers (toast_error m s) = timers s"
  "effect_cleanup (toast_error m s) = effect_cleanup s"
  "session (toast_success m s) = session s"
  "isLoading (toast_success m s) = isLoading s"
  "isSaving (toast_success m s) = isSaving s"
  "hasUnsavedChanges (toast_success m s) = hasUnsavedChanges s"
  "awaiting (toast_success m s) = awaiting s"
  "calls (toast_success m s) = calls s"
  "mounted (toast_success m s) = mounted s"
  "timers (toast_success m s) = timers s"
  "effect_cleanup (toast_success m s) = effect_cleanup s"
  by (simp_all add: toast_error_def toast_success_def)

lemma settled_inv:
  assumes "timer_inv s"
  shows "timer_inv (settled now origin c r s)"
proof (cases origin)
  case AutoSave
  with assms show ?thesis
    by (cases r) (simp_all add: settled_def timer_inv_def)
next
  case SaveDraftButton
  with assms show ?thesis
    by (cases r) (simp_all add: settled_def timer_inv_def)
next
  case PublishButton
  show ?thesis
  proof (cases r)
    case (Resolved rid)
    have "timer_inv (toast_success m (s\<lparr> hasUnsavedChanges := False, isSaving := False \<rparr>))" for m
      using assms by (simp add: timer_inv_def)
    with PublishButton Resolved show ?thesis
      by (simp add: settled_def navigate_inv)
  next
    case (Rejected m)
    with PublishButton assms show ?thesis
      by (simp add: settled_def timer_inv_def)
  qed
qed

lemma settle_inv:
  assumes "timer_inv s"
  shows "timer_inv (settle now r s)"
proof (cases "awaiting s")
  case Nil
  with assms show ?thesis by (simp add: settle_def)
next
  case (Cons a rest)
  obtain origin c where a: "a = (origin, c)" by (cases a)
  from assms have "timer_inv (s\<lparr> awaiting := rest \<rparr>)"
    by (simp add: timer_inv_def)
  then have "timer_inv (settled now origin c r (s\<lparr> awaiting := rest \<rparr>))"
    by (rule settled_inv)
  with Cons a show ?thesis
    by (simp add: settle_def render_inv)
qed

lemma fetch_settled_inv:
  assumes "timer_inv s"
  shows "timer_inv (fetch_settled now r s)"
proof (cases r)
  case None
  have "timer_inv (toast_error m (s\<lparr> isLoading := False \<rparr>))" for m
    using assms by (simp add: timer_inv_def)
  with None show ?thesis
    by (simp add: fetch_settled_def navigate_inv)
next
  case (Some a)
  obtain i d where a: "a = (i, d)" by (cases a)
  have "timer_inv (s\<lparr> session := b, tagInput := ti, lastSaved := ls, isLoading := False \<rparr>)" for b ti ls
    using assms by (simp add: timer_inv_def)
  with Some a show ?thesis
    by (simp add: fetch_settled_def render_inv)
qed

lemma step_inv:
  assumes "timer_inv s"
  shows "timer_inv (step p now e s)"
  using assms
  by (cases e)
     (simp_all add: handleInputChange_inv handleTagInputChange_inv removeTag_inv
        handleSaveDraft_inv handlePublish_inv settle_inv fetch_settled_inv)

lemma fire_inv:
  assumes "timer_inv s"
  shows "timer_inv (fire tm s)"
proof (cases "tm \<in> set (timers s)")
  case False
  with assms show ?thesis by (simp add: fire_def)
next
  case True
  have "length (removeAll tm (timers s)) \<le> length (timers s)"
    by (rule length_removeAll_less_eq)
  moreover from assms have "length (timers s) \<le> 1" by (simp add: timer_inv_def)
  ultimately have "length (removeAll tm (timers s)) \<le> 1" by (rule le_trans)
  with assms have "timer_inv (s\<lparr> timers := removeAll tm (timers s) \<rparr>)"
    by (simp add: timer_inv_def)
  with True show ?thesis
    by (simp add: fire_def autoSave_inv)
qed

lemma foldl_fire_inv:
  assumes "timer_inv s"
  shows "timer_inv (foldl (\<lambda>s' tm. fire tm s') s tms)"
  using assms by (induction tms arbitrary: s) (simp_all add: fire_inv)

lemma advance_inv: "timer_inv s \<Longrightarrow> timer_inv (advance t s)"
  by (simp add: advance_def foldl_fire_inv)

lemma run_inv: "timer_inv s \<Longrightarrow> timer_inv (run p es s)"
  by (induction es arbitrary: s) (auto simp: step_inv advance_inv)

lemma mount_inv: "timer_inv (mount rid)"
  by (simp add: timer_inv_def mount_def initialState_def)

lemma clearTimeout_fields [simp]:
  "session (clearTimeout h s) = session s"
  "isLoading (clearTimeout h s) = isLoading s"
  "isSaving (clearTimeout h s) = isSaving s"
  "hasUnsavedChanges (clearTimeout h s) = hasUnsavedChanges s"
  "awaiting (clearTimeout h s) = awaiting s"
  "calls (clearTimeout h s) = calls s"
  "mounted (clearTimeout h s) = mounted s"
  "effect_cleanup (clearTimeout h s) = effect_cleanup s"
  "next_handle (clearTimeout h s) = next_handle s"
  by (simp_all add: clearTimeout_def)

lemma handleInputChange_fields [simp]:
  "session (handleInputChange now e s) = set_field e (session s)"
  "isLoading (handleInputChange now e s) = isLoading s"
  "isSaving (handleInputChange now e s) = isSaving s"
  "hasUnsavedChanges (handleInputChange now e s) = True"
  "awaiting (handleInputChange now e s) = awaiting s"
  "calls (handleInputChange now e s) = calls s"
  "mounted (handleInputChange now e s) = mounted s"
  by (simp_all add: handleInputChange_def Let_def split: option.splits)

lemma handleTagInputChange_fields [simp]:
  "isLoading (handleTagInputChange now v s) = isLoading s"
  "isSaving (handleTagInputChange now v s) = isSaving s"
  "hasUnsavedChanges (handleTagInputChange now v s) = True"
  "awaiting (handleTagInputChange now v s) = awaiting s"
  "calls (handleTagInputChange now v s) = calls s"
  "mounted (handleTagInputChange now v s) = mounted s"
  "json_file_url (session (handleTagInputChange now v s)) = json_file_url (session s)"
  "title (session (handleTagInputChange now v s)) = title (session s)"
  by (simp_all add: handleTagInputChange_def Let_def)

lemma removeTag_fields [simp]:
  "isLoading (removeTag now i s) = isLoading s"
  "isSaving (removeTag now i s) = isSaving s"
  "hasUnsavedChanges (removeTag now i s) = True"
  "awaiting (removeTag now i s) = awaiting s"
  "calls (removeTag now i s) = calls s"
  "mounted (removeTag now i s) = mounted s"
  "json_file_url (session (removeTag now i s)) = json_file_url (session s)"
  "title (session (removeTag now i s)) = title (session s)"
  by (simp_all add: removeTag_def Let_def)

lemma handleSaveDraft_fields [simp]:
  "session (handleSaveDraft now s) = session s"
  "isLoading (handleSaveDraft now s) = isLoading s"
  "isSaving (handleSaveDraft now s) = True"
  "hasUnsavedChanges (handleSaveDraft now s) = hasUnsavedChanges s"
  "awaiting (handleSaveDraft now s) = awaiting s @ [(SaveDraftButton, session s)]"
  "calls (handleSaveDraft now s) = calls s @ [(now, SaveDraftCall (session s))]"
  "mounted (handleSaveDraft now s) = mounted s"
  by (simp_all add: handleSaveDraft_def)

lemma autoSave_saving [simp]: "isSaving s \<Longrightarrow> autoSave now s = s"
  by (simp add: autoSave_def)

lemma autoSave_empty [simp]: "isEmptySession (session s) \<Longrightarrow> autoSave now s = s"
  by (simp add: autoSave_def)

lemma autoSave_clean [simp]: "\<not> hasUnsavedChanges s \<Longrightarrow> autoSave now s = s"
  by (simp add: autoSave_def)

lemma autoSave_fields [simp]:
  "session (autoSave now s) = session s"
  "isLoading (autoSave now s) = isLoading s"
  "hasUnsavedChanges (autoSave now s) = hasUnsavedChanges s"
  "mounted (autoSave now s) = mounted s"
  by (simp_all add: autoSave_def)

lemma autoSave_issues:
  assumes "hasUnsavedChanges s" and "\<not> isSaving s" and "\<not> isEmptySession (session s)"
  shows "isSaving (autoSave now s)"
    and "awaiting (autoSave now s) = awaiting s @ [(AutoSave, session s)]"
    and "calls (autoSave now s) = calls s @ [(now, SaveDraftCall (session s))]"
  using assms by (simp_all add: autoSave_def)

lemma autoSave_flight:
  assumes "single_flight s"
  shows "single_flight (autoSave now s)"
proof (cases "hasUnsavedChanges s \<and> \<not> isSaving s \<and> \<not> isEmptySession (session s)")
  case True
  with assms have "awaiting s = []" by (auto simp: single_flight_def)
  with True show ?thesis
    by (simp add: single_flight_def autoSave_issues)
next
  case False
  then have "autoSave now s = s" by auto
  with assms show ?thesis by simp
qed

lemma handlePublish_flight:
  assumes "single_flight s" and "\<not> isSaving s"
  shows "single_flight (handlePublish p now s)"
proof -
  from assms have "awaiting s = []" by (auto simp: single_flight_def)
  then show ?thesis
    using assms by (simp add: single_flight_def handlePublish_def)
qed

lemma handleSaveDraft_flight:
  assumes "single_flight s" and "\<not> isSaving s"
  shows "single_flight (handleSaveDraft now s)"
proof -
  from assms have "awaiting s = []" by (auto simp: single_flight_def)
  then show ?thesis
    by (simp add: single_flight_def)
qed

lemma settled_fields [simp]:
  "isSaving (settled now origin c r s) = False"
  "awaiting (settled now origin c r s) = awaiting s"
  "calls (settled now origin c r s) = calls s"
  "isLoading (settled now origin c r s) = isLoading s"
  by (cases origin; cases r; simp add: settled_def)+

lemma settle_flight:
  assumes "single_flight s"
  shows "single_flight (settle now r s)"
proof (cases "awaiting s")
  case Nil
  with assms show ?thesis by (simp add: settle_def)
next
  case (Cons a rest)
  with assms have "rest = []" by (simp add: single_flight_def)
  with Cons show ?thesis
    by (cases a) (simp add: settle_def single_flight_def)
qed

lemma fetch_settled_fields [simp]:
  "isSaving (fetch_settled now r s) = isSaving s"
  "awaiting (fetch_settled now r s) = awaiting s"
  "calls (fetch_settled now r s) = calls s"
  by (cases r; auto simp: fetch_settled_def)+

lemma step_flight:
  assumes "single_flight s"
  shows "single_flight (step p now e s)"
proof (cases e)
  case ClickSaveDraft
  with assms show ?thesis by (simp add: handleSaveDraft_flight)
next
  case ClickPublish
  with assms show ?thesis by (simp add: handlePublish_flight publish_disabled_def)
next
  case (Settle r)
  with assms show ?thesis by (simp add: settle_flight)
qed (use assms in \<open>simp_all add: single_flight_def\<close>)

lemma fire_flight:
  assumes "single_flight s"
  shows "single_flight (fire tm s)"
proof -
  from assms have "single_flight (s\<lparr> timers := ts \<rparr>)" for ts
    by (simp add: single_flight_def)
  with assms show ?thesis
    by (simp add: fire_def autoSave_flight)
qed

lemma foldl_fire_flight:
  assumes "single_flight s"
  shows "single_flight (foldl (\<lambda>s' tm. fire tm s') s tms)"
  using assms by (induction tms arbitrary: s) (simp_all add: fire_flight)

lemma advance_flight: "single_flight s \<Longrightarrow> single_flight (advance t s)"
  by (simp add: advance_def foldl_fire_flight)

lemma run_flight: "single_flight s \<Longrightarrow> single_flight (run p es s)"
  by (induction es arbitrary: s) (auto simp: step_flight advance_flight)

lemma mount_flight: "single_flight (mount rid)"
  by (simp add: single_flight_def mount_def initialState_def)

section \<open>The debounce of the auto-save\<close>

lemma handleInputChange_timers:
  assumes "timer_inv s" and "mounted s"
  shows "timers (handleInputChange now e s) = (if isSaving s then [] else [(next_handle s, now + 5000)])"
proof -
  let ?s1 = "s\<lparr> session := set_field e (session s), hasUnsavedChanges := True \<rparr>"
  let ?s2 = "case autoSaveTimer s of None \<Rightarrow> ?s1 | Some h \<Rightarrow> clearTimeout h ?s1"
  from assms(1) have "timer_inv ?s1" by (simp add: timer_inv_def)
  then have inv: "timer_inv ?s2" by (simp add: clearTimeout_inv split: option.splits)
  have f: "hasUnsavedChanges ?s2" "isSaving ?s2 = isSaving s" "next_handle ?s2 = next_handle s"
          "mounted ?s2"
    using assms(2) by (simp_all split: option.splits)
  have "handleInputChange now e s = run_effect now ?s2"
    using f(4) by (simp add: handleInputChange_def Let_def render_def)
  with run_effect_timers [OF inv, of now] f show ?thesis by simp
qed

lemma step_edit_armed:
  assumes "timer_inv s" and "form_shown s" and "\<not> isSaving s" and "is_field_edit e"
  shows "armed t (step p t e s) \<and> calls (step p t e s) = calls s"
proof -
  from assms(2) have m: "mounted s" by (simp add: form_shown_def)
  from assms(1) have inv': "timer_inv (s\<lparr> tagInput := v \<rparr>)" for v by (simp add: timer_inv_def)
  show ?thesis
  proof (cases e)
    case (ChangeTitle v)
    with assms m handleInputChange_timers [OF assms(1) m, of t "SetTitle v"] show ?thesis
      by (simp add: armed_def form_shown_def)
  next
    case (ChangeJsonFileUrl v)
    with assms m handleInputChange_timers [OF assms(1) m, of t "SetJsonFileUrl v"] show ?thesis
      by (simp add: armed_def form_shown_def)
  next
    case (ChangeTagInput v)
    have "timers (handleTagInputChange t v s) = [(next_handle s, t + 5000)]"
      using handleInputChange_timers [OF inv' [of v], of t] m assms(3)
      by (simp add: handleTagInputChange_def Let_def)
    with ChangeTagInput assms m show ?thesis
      by (simp add: armed_def form_shown_def)
  qed (use assms(4) in \<open>simp_all add: is_field_edit_def\<close>)
qed

lemma armed_timers:
  assumes "armed t s"
  obtains h where "timers s = [(h, t + 5000)]"
proof -
  from assms have "map snd (timers s) = [t + 5000]" by (simp add: armed_def)
  then obtain tm where "timers s = [tm]" and "snd tm = t + 5000" by auto
  then have "timers s = [(fst tm, t + 5000)]" by (cases tm) simp
  then show ?thesis by (rule that)
qed

lemma advance_early:
  assumes "armed t s" and "t' < t + 5000"
  shows "advance t' s = s"
proof -
  from assms(1) obtain h where "timers s = [(h, t + 5000)]" by (rule armed_timers)
  with assms(2) show ?thesis by (simp add: advance_def)
qed

lemma advance_due:
  assumes "armed t s" and "t + 5000 \<le> t'"
  shows "advance t' s = autoSave (t + 5000) (s\<lparr> timers := [] \<rparr>)"
proof -
  from assms(1) obtain h where "timers s = [(h, t + 5000)]" by (rule armed_timers)
  with assms(2) show ?thesis by (simp add: advance_def fire_def)
qed

lemma autoSave_timers:
  assumes "timers s = []"
  shows "timers (autoSave now s) = []"
proof -
  let ?s1 = "issue now AutoSave (SaveDraftCall (session s)) (s\<lparr> isSaving := True \<rparr>)"
  have inv: "timer_inv ?s1"
    using assms by (simp add: timer_inv_def)
  have "timers (run_effect now ?s1) = []"
    using run_effect_timers [OF inv, of now] by simp
  with assms show ?thesis
    by (simp add: autoSave_def render_def)
qed

lemma burst_run:
  assumes "timer_inv s" and "armed t s" and "spaced t es"
  shows "armed (last_time t es) (run p es s) \<and> timer_inv (run p es s) \<and> calls (run p es s) = calls s"
  using assms
proof (induction es arbitrary: t s)
  case Nil
  then show ?case by simp
next
  case (Cons a es)
  obtain t' e where a: "a = (t', e)" by (cases a)
  from Cons.prems(3) a have sp: "t \<le> t'" "t' < t + 5000" "is_field_edit e" "spaced t' es"
    by simp_all
  from Cons.prems(2) sp(2) have adv: "advance t' s = s" by (rule advance_early)
  from Cons.prems(2) have fs: "form_shown s" "\<not> isSaving s" by (simp_all add: armed_def)
  from step_edit_armed [OF Cons.prems(1) fs sp(3), of t' p]
  have st: "armed t' (step p t' e s)" "calls (step p t' e s) = calls s" by simp_all
  have inv: "timer_inv (step p t' e s)" using Cons.prems(1) by (rule step_inv)
  from Cons.IH [OF inv st(1) sp(4)] a adv st(2) show ?case by simp
qed

text \<open>
  C1, as amended. In every state that the editor reaches in which the form is shown and
  no save is in flight, a field edit cancels the pending timeout and starts one of 5000 ms;
  so after a burst of field edits, each less than 5000 ms after the one before, no API
  call has been issued during the burst, exactly one timeout is pending, due 5000 ms
  after the last edit, nothing happens before it is due, and when it is due it issues at
  most one automatic save (none for the empty buffer) and leaves no timeout pending.
\<close>

theorem debounce_after_last_edit:
  assumes "s = advance t0 (run p es (mount rid))"
      and "form_shown s" and "\<not> isSaving s"
      and "is_field_edit e0" and "spaced t0 rest"
      and "s' = run p rest (step p t0 e0 s)"
      and "due = last_time t0 rest + 5000"
  shows "calls s' = calls s
       \<and> map snd (timers s') = [due]
       \<and> (\<forall>t. t < due \<longrightarrow> advance t s' = s')
       \<and> (\<forall>t. due \<le> t \<longrightarrow>
             calls (advance t s')
               = (if isEmptySession (session s') then calls s'
                  else calls s' @ [(due, SaveDraftCall (session s'))])
             \<and> timers (advance t s') = [])"
proof -
  have inv: "timer_inv s"
    unfolding assms(1) using mount_inv by (intro advance_inv run_inv)
  from step_edit_armed [OF inv assms(2,3,4), of t0 p]
  have a0: "armed t0 (step p t0 e0 s)" and c0: "calls (step p t0 e0 s) = calls s"
    by simp_all
  have inv0: "timer_inv (step p t0 e0 s)" using inv by (rule step_inv)
  from burst_run [OF inv0 a0 assms(5), of p]
  have a: "armed (last_time t0 rest) s'" and c: "calls s' = calls s"
    using c0 by (simp_all add: assms(6))
  from a have t: "map snd (timers s') = [due]" by (simp add: armed_def assms(7))
  have early: "advance t s' = s'" if "t < due" for t
    using a that unfolding assms(7) by (rule advance_early)
  have late: "calls (advance t s')
               = (if isEmptySession (session s') then calls s'
                  else calls s' @ [(due, SaveDraftCall (session s'))])
             \<and> timers (advance t s') = []" if "due \<le> t" for t
  proof -
    from a that have adv: "advance t s' = autoSave due (s'\<lparr> timers := [] \<rparr>)"
      unfolding assms(7) by (rule advance_due)
    have tm: "timers (autoSave due (s'\<lparr> timers := [] \<rparr>)) = []"
      by (rule autoSave_timers) simp
    from a have "hasUnsavedChanges s'" "\<not> isSaving s'" by (simp_all add: armed_def)
    then have "calls (autoSave due (s'\<lparr> timers := [] \<rparr>))
                 = (if isEmptySession (session s') then calls s'
                    else calls s' @ [(due, SaveDraftCall (session s'))])"
      by (simp add: autoSave_def)
    with adv tm show ?thesis by simp
  qed
  from c t early late show ?thesis by blast
qed

theorem debounce_after_last_edit_witness:
  "form_shown (advance 1000 (run any_url [] (mount None)))
   \<and> \<not> isSaving (advance 1000 (run any_url [] (mount None)))
   \<and> is_field_edit (ChangeTitle ''Yoga'')
   \<and> spaced 1000 yoga_burst
   \<and> last_time 1000 yoga_burst + 5000 = 12000
   \<and> calls yoga_editor = []
   \<and> map snd (timers yoga_editor) = [12000]
   \<and> advance 11999 yoga_editor = yoga_editor
   \<and> calls (advance 12000 yoga_editor) = [(12000, SaveDraftCall yoga_buffer)]
   \<and> timers (advance 12000 yoga_editor) = []"
proof -
  have s: "advance 1000 (run any_url [] (mount None)) = mount None"
    by (simp add: advance_def mount_def initialState_def)
  have h1: "form_shown (advance 1000 (run any_url [] (mount None)))"
    and h2: "\<not> isSaving (advance 1000 (run any_url [] (mount None)))"
    unfolding s by (simp_all add: form_shown_def mount_def initialState_def)
  have h3: "is_field_edit (ChangeTitle ''Yoga'')" by (simp add: is_field_edit_def)
  have h4: "spaced 1000 yoga_burst" by (simp add: yoga_burst_def is_field_edit_def)
  have h5: "last_time 1000 yoga_burst + 5000 = 12000" by (simp add: yoga_burst_def)
  have e: "yoga_editor
             = run any_url yoga_burst (step any_url 1000 (ChangeTitle ''Yoga'')
                 (advance 1000 (run any_url [] (mount None))))"
    unfolding s by (simp add: yoga_editor_def)
  have c0: "calls (advance 1000 (run any_url [] (mount None))) = []"
    unfolding s by (simp add: mount_def initialState_def)
  have b: "session yoga_editor = yoga_buffer"
    by (simp add: yoga_editor_def yoga_burst_def yoga_buffer_def editor_defs string_defs)
  have ne: "\<not> isEmptySession yoga_buffer"
    by (simp add: yoga_buffer_def isEmptySession_def)
  note t = debounce_after_last_edit [OF refl h1 h2 h3 h4 e h5 [symmetric]]
  from t c0 have r1: "calls yoga_editor = []" by simp
  from t have r2: "map snd (timers yoga_editor) = [12000]" by blast
  from t have r3: "advance 11999 yoga_editor = yoga_editor" by simp
  from t have "calls (advance 12000 yoga_editor)
               = (if isEmptySession (session yoga_editor) then calls yoga_editor
                  else calls yoga_editor @ [(12000, SaveDraftCall (session yoga_editor))])
             \<and> timers (advance 12000 yoga_editor) = []" by simp
  with b ne r1 have r4: "calls (advance 12000 yoga_editor) = [(12000, SaveDraftCall yoga_buffer)]"
    and r5: "timers (advance 12000 yoga_editor) = []" by simp_all
  from h1 h2 h3 h4 h5 r1 r2 r3 r4 r5 show ?thesis by (intro conjI)
qed

text \<open>
  C1 as stated fails: an edit made while the automatic save of an earlier edit is in
  flight starts no timeout, and once that save has succeeded none is started either, so
  no automatic save follows this last edit, however long the editor is left alone.
\<close>

theorem debounce_after_last_edit_counterexample:
  "calls (run any_url typing_during_save (mount None)) = [(5000, SaveDraftCall first_buffer)]
   \<and> isSaving (run any_url typing_during_save (mount None))
   \<and> timers (run any_url typing_during_save (mount None)) = []
   \<and> title (session (run any_url saved_meanwhile (mount None))) = ''ab''
   \<and> timers (run any_url saved_meanwhile (mount None)) = []
   \<and> calls (advance 100000 (run any_url saved_meanwhile (mount None)))
        = [(5000, SaveDraftCall first_buffer)]"
  by (simp add: typing_during_save_def saved_meanwhile_def first_buffer_def editor_defs string_defs)

section \<open>The guards of the persist paths\<close>

lemma idle_timers [simp]: "idle (s\<lparr> timers := ts \<rparr>) = idle s"
  by (simp add: idle_def)

lemma autoSave_idle: "idle s \<Longrightarrow> autoSave now s = s"
  by (auto simp: idle_def)

lemma fire_idle:
  assumes "idle s"
  shows "\<exists>ts. fire tm s = s\<lparr> timers := ts \<rparr>"
proof (cases "tm \<in> set (timers s)")
  case True
  with assms have "fire tm s = s\<lparr> timers := removeAll tm (timers s) \<rparr>"
    by (simp add: fire_def autoSave_idle)
  then show ?thesis by blast
next
  case False
  then have "fire tm s = s\<lparr> timers := timers s \<rparr>" by (simp add: fire_def)
  then show ?thesis by blast
qed

lemma foldl_fire_idle:
  assumes "idle s"
  shows "\<exists>ts. foldl (\<lambda>s' tm. fire tm s') s tms = s\<lparr> timers := ts \<rparr>"
  using assms
proof (induction tms arbitrary: s)
  case Nil
  have "foldl (\<lambda>s' tm. fire tm s') s [] = s\<lparr> timers := timers s \<rparr>" by simp
  then show ?case by (rule exI)
next
  case (Cons tm tms)
  from fire_idle [OF Cons.prems] obtain ts where f: "fire tm s = s\<lparr> timers := ts \<rparr>" by blast
  from Cons.prems have "idle (s\<lparr> timers := ts \<rparr>)" by simp
  from Cons.IH [OF this] obtain ts' where
    "foldl (\<lambda>s' tm. fire tm s') (s\<lparr> timers := ts \<rparr>) tms = s\<lparr> timers := ts, timers := ts' \<rparr>"
    by blast
  with f have "foldl (\<lambda>s' tm. fire tm s') s (tm # tms) = s\<lparr> timers := ts' \<rparr>" by simp
  then show ?case by blast
qed

lemma advance_idle:
  assumes "idle s"
  shows "advance t s = s\<lparr> timers := timers (advance t s) \<rparr>"
proof -
  from foldl_fire_idle [OF assms] obtain ts where "advance t s = s\<lparr> timers := ts \<rparr>"
    unfolding advance_def by blast
  then show ?thesis by simp
qed

text \<open>
  C2. When the title and the data URL of the buffer are empty after trimming and it has
  no tags, \<open>autoSave\<close> leaves the state as it is, and so does the passing of time, up to
  the timeouts that have fired: no API call is issued, \<open>isSaving\<close>, the buffer and
  \<open>lastSaved\<close> stay as they are.
\<close>

theorem autoSave_empty_buffer:
  assumes "trim (title (session s)) = []" and "trim (json_file_url (session s)) = []"
      and "tags (session s) = []"
  shows "autoSave now s = s \<and> advance t s = s\<lparr> timers := timers (advance t s) \<rparr>"
proof -
  from assms have "isEmptySession (session s)" by (simp add: isEmptySession_def)
  then have "idle s" by (simp add: idle_def)
  then show ?thesis by (simp add: autoSave_idle advance_idle [symmetric])
qed

theorem autoSave_empty_buffer_witness:
  "trim (title (session blank_url_editor)) = []
   \<and> trim (json_file_url (session blank_url_editor)) = []
   \<and> tags (session blank_url_editor) = []
   \<and> hasUnsavedChanges blank_url_editor
   \<and> timers blank_url_editor = [(1, 5000)]
   \<and> autoSave 5000 blank_url_editor = blank_url_editor
   \<and> calls (advance 5000 blank_url_editor) = []
   \<and> \<not> isSaving (advance 5000 blank_url_editor)"
proof -
  have h1: "trim (title (session blank_url_editor)) = []"
    and h2: "trim (json_file_url (session blank_url_editor)) = []"
    and h3: "tags (session blank_url_editor) = []"
    and d: "hasUnsavedChanges blank_url_editor"
    and tm: "timers blank_url_editor = [(1, 5000)]"
    and c: "calls blank_url_editor = []"
    and sv: "\<not> isSaving blank_url_editor"
    by (simp_all add: blank_url_editor_def editor_defs string_defs)
  note t = autoSave_empty_buffer [OF h1 h2 h3, of 5000 5000]
  from t have r1: "autoSave 5000 blank_url_editor = blank_url_editor" by blast
  from t have a: "advance 5000 blank_url_editor
                    = blank_url_editor\<lparr> timers := timers (advance 5000 blank_url_editor) \<rparr>"
    by blast
  have "calls (advance 5000 blank_url_editor) = calls blank_url_editor"
    and "isSaving (advance 5000 blank_url_editor) = isSaving blank_url_editor"
    by (subst a, simp)+
  with c sv have r2: "calls (advance 5000 blank_url_editor) = []"
    and r3: "\<not> isSaving (advance 5000 blank_url_editor)" by simp_all
  from h1 h2 h3 d tm r1 r2 r3 show ?thesis by (intro conjI)
qed

text \<open>
  C3. \<open>handlePublish\<close> rejects a buffer whose title is empty after trimming with the
  reason of the title, and one whose URL is empty after trimming or does not start with
  \<open>http://\<close> or \<open>https://\<close> with a reason of the URL; a rejection adds the toast and
  nothing else, so that no API call is issued and \<open>isSaving\<close> stays as it is.
\<close>

theorem publish_rejected_locally:
  "(trim (title (session s)) = [] \<longrightarrow>
      handlePublish p now s = s\<lparr> toasts := toasts s @ [ToastError ''Title is required for publishing''] \<rparr>)
   \<and> (trim (title (session s)) \<noteq> [] \<and> trim (json_file_url (session s)) = [] \<longrightarrow>
      handlePublish p now s
        = s\<lparr> toasts := toasts s @ [ToastError ''JSON file URL is required for publishing''] \<rparr>)
   \<and> (trim (title (session s)) \<noteq> [] \<and> trim (json_file_url (session s)) \<noteq> []
       \<and> \<not> (startsWith (json_file_url (session s)) ''http://''
             \<or> startsWith (json_file_url (session s)) ''https://'') \<longrightarrow>
      handlePublish p now s
        = s\<lparr> toasts := toasts s
               @ [ToastError ''Please enter a valid URL (must start with http:// or https://)''] \<rparr>)
   \<and> calls (s\<lparr> toasts := ts \<rparr>) = calls s \<and> awaiting (s\<lparr> toasts := ts \<rparr>) = awaiting s
   \<and> isSaving (s\<lparr> toasts := ts \<rparr>) = isSaving s"
  by (simp add: handlePublish_def toast_error_def validateUrl_def)

theorem publish_rejected_locally_witness:
  "trim (title (session (mount None))) = []
   \<and> toasts (handlePublish any_url 9 (mount None)) = [ToastError ''Title is required for publishing'']
   \<and> calls (handlePublish any_url 9 (mount None)) = []
   \<and> trim (title (session no_url_editor)) \<noteq> []
   \<and> trim (json_file_url (session no_url_editor)) = []
   \<and> toasts (handlePublish any_url 20 no_url_editor)
        = [ToastError ''JSON file URL is required for publishing'']
   \<and> calls (handlePublish any_url 20 no_url_editor) = []
   \<and> trim (title (session bad_url_editor)) \<noteq> []
   \<and> trim (json_file_url (session bad_url_editor)) \<noteq> []
   \<and> \<not> startsWith (json_file_url (session bad_url_editor)) ''http://''
   \<and> \<not> startsWith (json_file_url (session bad_url_editor)) ''https://''
   \<and> toasts (handlePublish any_url 20 bad_url_editor)
        = [ToastError ''Please enter a valid URL (must start with http:// or https://)'']
   \<and> calls (handlePublish any_url 20 bad_url_editor) = []"
proof -
  have a1: "trim (title (session (mount None))) = []"
    and a2: "toasts (mount None) = []" and a3: "calls (mount None) = []"
    by (simp_all add: editor_defs string_defs)
  have b1: "trim (title (session no_url_editor)) \<noteq> []"
    and b2: "trim (json_file_url (session no_url_editor)) = []"
    and b3: "toasts no_url_editor = []" and b4: "calls no_url_editor = []"
    by (simp_all add: no_url_editor_def editor_defs string_defs)
  have c1: "trim (title (session bad_url_editor)) \<noteq> []"
    and c2: "trim (json_file_url (session bad_url_editor)) \<noteq> []"
    and c3: "\<not> startsWith (json_file_url (session bad_url_editor)) ''http://''"
    and c4: "\<not> startsWith (json_file_url (session bad_url_editor)) ''https://''"
    and c5: "toasts bad_url_editor = []" and c6: "calls bad_url_editor = []"
    by (simp_all add: bad_url_editor_def editor_defs string_defs)
  from publish_rejected_locally [of "mount None" any_url 9] a1
  have ra: "handlePublish any_url 9 (mount None)
              = (mount None)\<lparr> toasts := toasts (mount None)
                   @ [ToastError ''Title is required for publishing''] \<rparr>"
    by blast
  from publish_rejected_locally [of no_url_editor any_url 20] b1 b2
  have rb: "handlePublish any_url 20 no_url_editor
              = no_url_editor\<lparr> toasts := toasts no_url_editor
                   @ [ToastError ''JSON file URL is required for publishing''] \<rparr>"
    by blast
  from publish_rejected_locally [of bad_url_editor any_url 20] c1 c2 c3 c4
  have rc: "handlePublish any_url 20 bad_url_editor
              = bad_url_editor\<lparr> toasts := toasts bad_url_editor
                   @ [ToastError ''Please enter a valid URL (must start with http:// or https://)''] \<rparr>"
    by blast
  have ra': "toasts (handlePublish any_url 9 (mount None)) = [ToastError ''Title is required for publishing'']"
    "calls (handlePublish any_url 9 (mount None)) = []"
    by (simp_all add: ra a2 a3)
  have rb': "toasts (handlePublish any_url 20 no_url_editor)
        = [ToastError ''JSON file URL is required for publishing'']"
    "calls (handlePublish any_url 20 no_url_editor) = []"
    by (simp_all add: rb b3 b4)
  have rc': "toasts (handlePublish any_url 20 bad_url_editor)
        = [ToastError ''Please enter a valid URL (must start with http:// or https://)'']"
    "calls (handlePublish any_url 20 bad_url_editor) = []"
    by (simp_all add: rc c5 c6)
  from a1 ra' b1 b2 rb' c1 c2 c3 c4 rc' show ?thesis by (intro conjI)
qed

text \<open>
  C4. While \<open>isSaving\<close> holds, \<open>autoSave\<close>, a click on \<open>Save Draft\<close>, a click on \<open>Publish\<close>
  and the firing of timeouts issue nothing and queue nothing. In every state that the
  editor reaches at most one API call has not settled. Two clicks on \<open>Save Draft\<close> in a
  row issue one call.
\<close>

theorem single_flight_guard:
  "(isSaving s \<longrightarrow>
      autoSave now s = s \<and> step p now ClickSaveDraft s = s \<and> step p now ClickPublish s = s
      \<and> advance t s = s\<lparr> timers := timers (advance t s) \<rparr>)
   \<and> length (awaiting (run p es (mount rid))) \<le> 1
   \<and> length (awaiting (advance t (run p es (mount rid)))) \<le> 1
   \<and> (form_shown s \<and> \<not> isSaving s \<longrightarrow>
        calls (step p t2 ClickSaveDraft (step p t1 ClickSaveDraft s))
          = calls s @ [(t1, SaveDraftCall (session s))]
        \<and> awaiting (step p t2 ClickSaveDraft (step p t1 ClickSaveDraft s))
          = awaiting s @ [(SaveDraftButton, session s)])"
proof -
  have 1: "isSaving s \<longrightarrow>
      autoSave now s = s \<and> step p now ClickSaveDraft s = s \<and> step p now ClickPublish s = s
      \<and> advance t s = s\<lparr> timers := timers (advance t s) \<rparr>"
    using advance_idle [of s t] by (simp add: idle_def publish_disabled_def)
  have sf: "single_flight (run p es (mount rid))"
    using mount_flight by (rule run_flight)
  then have 2: "length (awaiting (run p es (mount rid))) \<le> 1"
    by (simp add: single_flight_def)
  from sf have "single_flight (advance t (run p es (mount rid)))" by (rule advance_flight)
  then have 3: "length (awaiting (advance t (run p es (mount rid)))) \<le> 1"
    by (simp add: single_flight_def)
  have 4: "form_shown s \<and> \<not> isSaving s \<longrightarrow>
        calls (step p t2 ClickSaveDraft (step p t1 ClickSaveDraft s))
          = calls s @ [(t1, SaveDraftCall (session s))]
        \<and> awaiting (step p t2 ClickSaveDraft (step p t1 ClickSaveDraft s))
          = awaiting s @ [(SaveDraftButton, session s)]"
    by (simp add: form_shown_def)
  from 1 2 3 4 show ?thesis by (intro conjI)
qed

theorem single_flight_guard_witness:
  "isSaving saving_editor
   \<and> autoSave 200 saving_editor = saving_editor
   \<and> step any_url 200 ClickSaveDraft saving_editor = saving_editor
   \<and> step any_url 200 ClickPublish saving_editor = saving_editor
   \<and> length (awaiting (run any_url [(100, ClickSaveDraft), (200, ClickSaveDraft)] (mount None))) \<le> 1
   \<and> form_shown (mount None) \<and> \<not> isSaving (mount None)
   \<and> calls (step any_url 200 ClickSaveDraft (step any_url 100 ClickSaveDraft (mount None)))
        = [(100, SaveDraftCall (session (mount None)))]
   \<and> awaiting (step any_url 200 ClickSaveDraft (step any_url 100 ClickSaveDraft (mount None)))
        = [(SaveDraftButton, session (mount None))]"
proof -
  have h1: "isSaving saving_editor"
    by (simp add: saving_editor_def editor_defs)
  have h2: "form_shown (mount None)" and h3: "\<not> isSaving (mount None)"
    and c0: "calls (mount None) = []" and a0: "awaiting (mount None) = []"
    by (simp_all add: editor_defs)
  note t = single_flight_guard [of saving_editor 200 any_url 0
      "[(100, ClickSaveDraft), (200, ClickSaveDraft)]" None 200 100]
  note u = single_flight_guard [of "mount None" 200 any_url 0 "[]" None 200 100]
  from t h1 have r1: "autoSave 200 saving_editor = saving_editor"
    and r2: "step any_url 200 ClickSaveDraft saving_editor = saving_editor"
    and r3: "step any_url 200 ClickPublish saving_editor = saving_editor"
    by blast+
  from t have r4: "length (awaiting (run any_url [(100, ClickSaveDraft), (200, ClickSaveDraft)] (mount None))) \<le> 1"
    by blast
  from u h2 h3 have "calls (step any_url 200 ClickSaveDraft (step any_url 100 ClickSaveDraft (mount None)))
        = calls (mount None) @ [(100, SaveDraftCall (session (mount None)))]"
    and "awaiting (step any_url 200 ClickSaveDraft (step any_url 100 ClickSaveDraft (mount None)))
        = awaiting (mount None) @ [(SaveDraftButton, session (mount None))]"
    by blast+
  then have r5: "calls (step any_url 200 ClickSaveDraft (step any_url 100 ClickSaveDraft (mount None)))
        = [(100, SaveDraftCall (session (mount None)))]"
    and r6: "awaiting (step any_url 200 ClickSaveDraft (step any_url 100 ClickSaveDraft (mount None)))
        = [(SaveDraftButton, session (mount None))]"
    by (simp_all only: c0 a0 append_Nil)
  from h1 r1 r2 r3 r4 h2 h3 r5 r6 show ?thesis by (intro conjI)
qed

section \<open>The buffer of a new session\<close>

lemma settled_session [simp]:
  "title (session (settled now origin c r s)) = title (session s)"
  "tags (session (settled now origin c r s)) = tags (session s)"
  "json_file_url (session (settled now origin c r s)) = json_file_url (session s)"
  by (cases origin; cases r; simp add: settled_def)+

lemma settle_fields [simp]:
  "title (session (settle now r s)) = title (session s)"
  "tags (session (settle now r s)) = tags (session s)"
  "json_file_url (session (settle now r s)) = json_file_url (session s)"
  "isLoading (settle now r s) = isLoading s"
  "calls (settle now r s) = calls s"
  by (cases "awaiting s"; auto simp: settle_def)+

lemma fire_fields [simp]:
  "session (fire tm s) = session s"
  "isLoading (fire tm s) = isLoading s"
  "mounted (fire tm s) = mounted s"
  "hasUnsavedChanges (fire tm s) = hasUnsavedChanges s"
  by (simp_all add: fire_def)

lemma foldl_fire_fields:
  "session (foldl (\<lambda>s' tm. fire tm s') s tms) = session s
   \<and> isLoading (foldl (\<lambda>s' tm. fire tm s') s tms) = isLoading s
   \<and> mounted (foldl (\<lambda>s' tm. fire tm s') s tms) = mounted s
   \<and> hasUnsavedChanges (foldl (\<lambda>s' tm. fire tm s') s tms) = hasUnsavedChanges s"
  by (induction tms arbitrary: s) simp_all

lemma advance_fields [simp]:
  "session (advance t s) = session s"
  "isLoading (advance t s) = isLoading s"
  "mounted (advance t s) = mounted s"
  "hasUnsavedChanges (advance t s) = hasUnsavedChanges s"
  by (simp_all add: advance_def foldl_fire_fields)

lemma handlePublish_fields [simp]:
  "session (handlePublish p now s) = session s"
  "isLoading (handlePublish p now s) = isLoading s"
  "mounted (handlePublish p now s) = mounted s"
  by (simp_all add: handlePublish_def)

lemma step_url_kept:
  assumes "url_kept s" and "\<not> clears_url e"
  shows "url_kept (step p now e s)"
  using assms by (cases e) (simp_all add: url_kept_def clears_url_def)

lemma run_url_kept:
  assumes "url_kept s" and "list_all (\<lambda>(t, e). \<not> clears_url e) es"
  shows "url_kept (run p es s)"
  using assms
proof (induction es arbitrary: s)
  case Nil
  then show ?case by simp
next
  case (Cons a es)
  obtain t e where a: "a = (t, e)" by (cases a)
  from Cons.prems(1) have "url_kept (advance t s)" by (simp add: url_kept_def)
  moreover from Cons.prems(2) a have "\<not> clears_url e" by simp
  ultimately have "url_kept (step p t e (advance t s))" by (rule step_url_kept)
  moreover from Cons.prems(2) have "list_all (\<lambda>(t, e). \<not> clears_url e) es" by simp
  ultimately have "url_kept (run p es (step p t e (advance t s)))" by (rule Cons.IH)
  with a show ?case by simp
qed

lemma new_mount:
  assumes "rid = None \<or> rid = Some ''new''"
  shows "mount rid = initialState"
  using assms by (auto simp: mount_def initialState_def)

lemma initial_url_kept: "url_kept initialState"
  by (simp add: url_kept_def initialState_def trim_def isWhiteSpace_def)

text \<open>
  C9. The editor of a new session starts with the data URL
  \<open>https://example.com/data/users.json\<close> and the status \<open>draft\<close>, so its buffer is not
  empty; and it stays not empty along every run in which no edit leaves the URL field
  blank. So the suppression for the empty buffer does not apply there: whenever such a
  run has left the buffer dirty with no save in flight, \<open>autoSave\<close> enters the saving state
  and issues the save of the buffer. Blanking the URL field of the initial buffer makes it
  empty, and then \<open>autoSave\<close> does nothing.
\<close>

theorem new_session_not_empty:
  assumes "rid = None \<or> rid = Some ''new''"
      and "list_all (\<lambda>(t, e). \<not> clears_url e) es"
  shows "json_file_url (session (mount rid)) = ''https://example.com/data/users.json''
       \<and> status (session (mount rid)) = Draft
       \<and> \<not> isEmptySession (session (mount rid))
       \<and> \<not> isEmptySession (session (run p es (mount rid)))
       \<and> \<not> isEmptySession (session (advance t (run p es (mount rid))))
       \<and> isEmptySession (session (step p t (ChangeJsonFileUrl []) (mount rid)))
       \<and> (hasUnsavedChanges (run p es (mount rid)) \<and> \<not> isSaving (run p es (mount rid)) \<longrightarrow>
            isSaving (autoSave now (run p es (mount rid)))
            \<and> calls (autoSave now (run p es (mount rid)))
                 = calls (run p es (mount rid))
                   @ [(now, SaveDraftCall (session (run p es (mount rid))))])
       \<and> autoSave now (step p t (ChangeJsonFileUrl []) (mount rid))
            = step p t (ChangeJsonFileUrl []) (mount rid)"
proof -
  from assms(1) have m: "mount rid = initialState" by (rule new_mount)
  have k: "url_kept (run p es initialState)"
    using initial_url_kept assms(2) by (rule run_url_kept)
  have 1: "json_file_url (session initialState) = ''https://example.com/data/users.json''
           \<and> status (session initialState) = Draft"
    by (simp add: initialState_def)
  have 2: "\<not> isEmptySession (session initialState)"
    using initial_url_kept by (simp add: url_kept_def isEmptySession_def)
  have 3: "\<not> isEmptySession (session (run p es initialState))"
    using k by (simp add: url_kept_def isEmptySession_def)
  have 4: "isEmptySession (session (step p t (ChangeJsonFileUrl []) initialState))"
    by (simp add: isEmptySession_def form_shown_def initialState_def trim_def)
  have 5: "hasUnsavedChanges (run p es initialState) \<and> \<not> isSaving (run p es initialState) \<longrightarrow>
            isSaving (autoSave now (run p es initialState))
            \<and> calls (autoSave now (run p es initialState))
                 = calls (run p es initialState)
                   @ [(now, SaveDraftCall (session (run p es initialState)))]"
    using 3 autoSave_issues [of "run p es initialState" now] by blast
  have 6: "autoSave now (step p t (ChangeJsonFileUrl []) initialState)
            = step p t (ChangeJsonFileUrl []) initialState"
    using 4 by (rule autoSave_empty)
  from 1 2 3 4 5 6 show ?thesis by (simp add: m)
qed

theorem new_session_not_empty_witness:
  "\<not> clears_url (ChangeTitle ''  '') \<and> \<not> clears_url (ChangeTagInput '' , '')
   \<and> json_file_url (session (mount None)) = ''https://example.com/data/users.json''
   \<and> status (session (mount None)) = Draft
   \<and> \<not> isEmptySession (session (mount None))
   \<and> trim (title (session (run any_url idle_typing (mount None)))) = []
   \<and> tags (session (run any_url idle_typing (mount None))) = []
   \<and> \<not> isEmptySession (session (run any_url idle_typing (mount None)))
   \<and> \<not> isEmptySession (session (advance 7000 (run any_url idle_typing (mount None))))
   \<and> isEmptySession (session (step any_url 7000 (ChangeJsonFileUrl []) (mount None)))
   \<and> hasUnsavedChanges (run any_url idle_typing (mount None))
   \<and> \<not> isSaving (run any_url idle_typing (mount None))
   \<and> isSaving (autoSave 7000 (run any_url idle_typing (mount None)))
   \<and> calls (autoSave 7000 (run any_url idle_typing (mount None)))
        = [(7000, SaveDraftCall (session (run any_url idle_typing (mount None))))]
   \<and> calls (advance 7000 (run any_url idle_typing (mount None)))
        = [(7000, SaveDraftCall (session (run any_url idle_typing (mount None))))]
   \<and> autoSave 7000 (step any_url 7000 (ChangeJsonFileUrl []) (mount None))
        = step any_url 7000 (ChangeJsonFileUrl []) (mount None)"
proof -
  have h1: "\<not> clears_url (ChangeTitle ''  '')" and h2: "\<not> clears_url (ChangeTagInput '' , '')"
    by (simp_all add: clears_url_def)
  then have h: "list_all (\<lambda>(t, e). \<not> clears_url e) idle_typing"
    by (simp add: idle_typing_def)
  have e: "trim (title (session (run any_url idle_typing (mount None)))) = []"
    "tags (session (run any_url idle_typing (mount None))) = []"
    and d: "hasUnsavedChanges (run any_url idle_typing (mount None))"
    "\<not> isSaving (run any_url idle_typing (mount None))"
    and c: "calls (run any_url idle_typing (mount None)) = []"
    and f: "calls (advance 7000 (run any_url idle_typing (mount None)))
        = [(7000, SaveDraftCall (session (run any_url idle_typing (mount None))))]"
    by (simp_all add: idle_typing_def editor_defs string_defs)
  have n: "(None :: string option) = None \<or> None = Some ''new''" by simp
  note t = new_session_not_empty [OF n h, of any_url 7000 7000]
  from t d c have g: "isSaving (autoSave 7000 (run any_url idle_typing (mount None)))"
    "calls (autoSave 7000 (run any_url idle_typing (mount None)))
        = [(7000, SaveDraftCall (session (run any_url idle_typing (mount None))))]"
    by simp_all
  from h1 h2 e t d g f show ?thesis by blast
qed

section \<open>The explicit save\<close>

text \<open>
  C6. The explicit save of a buffer with no title, no URL and no tags is issued at once,
  with no guard on emptiness, and the save-draft route answers it with status 400 and
  stores nothing: the route replaces the empty title by \<open>Untitled Session\<close>, which the
  schema accepts, but the empty URL by the empty string, which \<open>required\<close> rejects. With
  a URL, the buffer with no title is stored as a draft.
\<close>

theorem save_draft_empty_url_rejected:
  "session cleared_editor = empty_buffer
   \<and> calls (step any_url 10 ClickSaveDraft cleared_editor) = [(10, SaveDraftCall empty_buffer)]
   \<and> draft_data 1 (request_body empty_buffer)
        = \<lparr> title = ''Untitled Session'', tags = [], json_file_url = [], status = Draft,
            user_id = 1 \<rparr>
   \<and> save_draft 5 1 (request_body empty_buffer) empty_db
        = (Failure 400 ''JSON file URL is required'', empty_db)
   \<and> fst (save_draft 5 1 (request_body untitled_buffer) empty_db)
        = Saved ''Draft saved successfully'' 0 untitled_doc
   \<and> status untitled_doc = Draft"
proof -
  have 1: "session cleared_editor = empty_buffer"
    and 2: "calls (step any_url 10 ClickSaveDraft cleared_editor) = [(10, SaveDraftCall empty_buffer)]"
    by (simp_all add: cleared_editor_def empty_buffer_def editor_defs string_defs)
  have 3: "draft_data 1 (request_body empty_buffer)
        = \<lparr> title = ''Untitled Session'', tags = [], json_file_url = [], status = Draft,
            user_id = 1 \<rparr>"
    and 4: "save_draft 5 1 (request_body empty_buffer) empty_db
        = (Failure 400 ''JSON file URL is required'', empty_db)"
    by (simp_all add: empty_buffer_def request_body_def eval_defs)
  have 5: "fst (save_draft 5 1 (request_body untitled_buffer) empty_db)
        = Saved ''Draft saved successfully'' 0 untitled_doc"
    and 6: "status untitled_doc = Draft"
    by (simp_all add: untitled_buffer_def untitled_doc_def request_body_def eval_defs)
  from 1 2 3 4 5 6 show ?thesis by (intro conjI)
qed

end
